theory Spec2Isabelle
  imports Main "HOL-Library.AList"
begin

section \<open>Values, property keys and programs\<close>

text \<open>
  Objects and effects are heap allocated in the source and compared by identity; an
  object is named by its address, an effect by its \<open>id\<close> (the counter \<open>uid\<close>).
\<close>

type_synonym addr = nat
type_synonym eid = nat

text \<open>
  A property key is a string or a symbol. \<open>ITERATE_KEY\<close> and \<open>MAP_KEY_ITERATE_KEY\<close> are
  the two symbols of effect.ts; \<open>BuiltInSymbol\<close> stands for the members of
  \<open>builtInSymbols\<close> (baseHandlers.ts), \<open>OtherSymbol\<close> for any other symbol.
\<close>

datatype key = Str string | ITERATE_KEY | MAP_KEY_ITERATE_KEY | BuiltInSymbol nat | OtherSymbol nat

text \<open>Function values: an effect (it is a function object), an entry of
  \<open>arrayInstrumentations\<close>, a method of \<open>Array.prototype\<close>.\<close>

datatype fnval = EffectFn eid | ArrayInstrumentation string | ArrayMethod string

text \<open>JavaScript values. Numbers are the integers and \<open>NaN\<close>; fractions and the
  rounding of doubles are outside the model.\<close>

datatype val = Undefined | Null | Bool bool | Num int | NaN | String string | Obj addr | Fun fnval

datatype TrackOpTypes = GET | HAS | ITERATE
datatype TriggerOpTypes = SET | ADD | DELETE | CLEAR

text \<open>
  A user function (the \<open>fn\<close> of an effect, a getter, a scheduler) is the tree of the
  operations it performs on the reactivity API, each with the continuation that receives
  the operation's result: property read and write on any value, calling a function value,
  \<open>track\<close>, \<open>trigger\<close>, \<open>stop\<close>, the four wrappers (\<open>Wrap isReadonly shallow\<close>),
  \<open>toRaw\<close>, the three tracking switches, \<open>throw\<close> and \<open>return\<close>.
\<close>

datatype prog =
    Return val
  | Throw val
  | GetProp val key "val \<Rightarrow> prog"
  | SetProp val key val prog
  | CallFn val "val \<Rightarrow> prog"
  | Track addr TrackOpTypes key prog
  | Trigger addr TriggerOpTypes "key option" val prog
  | Stop eid prog
  | Wrap bool bool val "val \<Rightarrow> prog"
  | ToRaw val "val \<Rightarrow> prog"
  | PauseTracking prog
  | EnableTracking prog
  | ResetTracking prog

section \<open>The state of the reactivity module\<close>

datatype scheduler = Scheduler "eid \<Rightarrow> prog" | ComputedScheduler addr

text \<open>\<open>ReactiveEffectOptions\<close>; the development-only hooks \<open>onTrack\<close> and \<open>onTrigger\<close>
  are left out.\<close>

record ReactiveEffectOptions =
  lazy :: bool
  scheduler :: "scheduler option"
  onStop :: "prog option"
  allowRecurseOpt :: bool

text \<open>
  \<open>ReactiveEffect\<close>. A \<open>Dep\<close> is the \<open>Set\<close> stored in \<open>targetMap\<close> under a target and
  a key; it is created once and never replaced, so the pair names it, and \<open>deps\<close> is the
  list of those names.
\<close>

record ReactiveEffect =
  active :: bool
  raw :: prog
  deps :: "(addr \<times> key) list"
  options :: ReactiveEffectOptions
  allowRecurse :: bool

datatype collection = TMap | TSet | TWeakMap | TWeakSet

text \<open>
  Heap objects:
  \<^item> \<open>Plain props proto extensible\<close>: an ordinary object with its own data properties
    (in insertion order), its prototype and its extensible bit;
  \<^item> \<open>Array elems props extensible\<close>: an array, its elements and its other own properties;
  \<^item> \<open>Collection c skip\<close>: a Map, Set, WeakMap or WeakSet (contents not modelled), with
    its \<open>__v_skip\<close> mark;
  \<^item> \<open>Builtin\<close>: any other object (Date, RegExp, ...);
  \<^item> \<open>Proxy target isReadonly shallow collection\<close>: \<open>new Proxy(target, handlers)\<close> with
    the handlers of that flavor, the collection handlers when \<open>collection\<close>;
  \<^item> \<open>RefImpl v shallow\<close>: a ref cell;
  \<^item> \<open>ComputedRefImpl v dirty effect setter isReadonly\<close>: an instance of the class of
    computed.ts (\<open>_value\<close>, \<open>_dirty\<close>, \<open>effect\<close>, \<open>_setter\<close>, \<open>__v_isReadonly\<close>).
\<close>

datatype obj =
    Plain "(key \<times> val) list" val bool
  | Array "val list" "(key \<times> val) list" bool
  | Collection collection bool
  | Builtin
  | Proxy addr bool bool bool
  | RefImpl val bool
  | ComputedRefImpl val bool eid "(val \<Rightarrow> prog) option" bool

text \<open>
  History of the calls of \<open>track\<close>, \<open>trigger\<close> and \<open>stop\<close> and of the invocations of
  an effect's \<open>fn\<close>. It is a history variable: the functions below append to it and never
  read it. \<open>TrackCall\<close> records \<open>activeEffect\<close> and \<open>shouldTrack\<close> at the call.
\<close>

datatype event =
    TrackCall "eid option" bool addr TrackOpTypes key
  | TriggerCall addr TriggerOpTypes "key option"
  | FnCall eid
  | StopCall eid

record state =
  heap :: "addr \<rightharpoonup> obj"
  nextAddr :: addr
  targetMap :: "addr \<rightharpoonup> (key \<times> eid list) list"
  effects :: "eid \<Rightarrow> ReactiveEffect"
  uid :: nat
  effectStack :: "eid list"
  activeEffect :: "eid option"
  shouldTrack :: bool
  trackStack :: "bool list"
  reactiveMap :: "addr \<rightharpoonup> addr"
  shallowReactiveMap :: "addr \<rightharpoonup> addr"
  readonlyMap :: "addr \<rightharpoonup> addr"
  shallowReadonlyMap :: "addr \<rightharpoonup> addr"
  history :: "event list"

section \<open>Computations\<close>

text \<open>
  A computation returns an outcome and the new state. \<open>Thrown\<close> is a JavaScript
  exception, \<open>OutOfFuel\<close> a call nested deeper than the fuel allows, \<open>Unmodelled\<close> an
  operation of the language that this model does not describe.
\<close>

datatype 'a outcome = Ok 'a | Thrown val | OutOfFuel | Unmodelled

type_synonym 'a comp = "state \<Rightarrow> 'a outcome \<times> state"

definition ret :: "'a \<Rightarrow> 'a comp" where
  "ret x = (\<lambda>s. (Ok x, s))"

definition throw :: "val \<Rightarrow> 'a comp" where
  "throw v = (\<lambda>s. (Thrown v, s))"

definition unmodelled :: "'a comp" where
  "unmodelled = (\<lambda>s. (Unmodelled, s))"

definition bnd :: "'a comp \<Rightarrow> ('a \<Rightarrow> 'b comp) \<Rightarrow> 'b comp" where
  "bnd m f = (\<lambda>s. case m s of
      (Ok x, s') \<Rightarrow> f x s'
    | (Thrown v, s') \<Rightarrow> (Thrown v, s')
    | (OutOfFuel, s') \<Rightarrow> (OutOfFuel, s')
    | (Unmodelled, s') \<Rightarrow> (Unmodelled, s'))"

definition modify :: "(state \<Rightarrow> state) \<Rightarrow> unit comp" where
  "modify f = (\<lambda>s. (Ok (), f s))"

text \<open>\<open>try { m } finally { h }\<close>: \<open>h\<close> runs on every exit of \<open>m\<close>.\<close>

definition try_finally :: "'a comp \<Rightarrow> (state \<Rightarrow> state) \<Rightarrow> 'a comp" where
  "try_finally m h = (\<lambda>s. case m s of (r, s') \<Rightarrow> (r, h s'))"

definition TypeError :: val where
  "TypeError = String ''TypeError''"

definition RangeError :: val where
  "RangeError = String ''RangeError''"

text \<open>
  The entry points that call each other without bound (an effect runs user code, which
  reads a proxy, whose handler runs a computed's effect, ...). Every function below takes
  the dispatcher \<open>call\<close> for them; \<open>run\<close> at the end ties the knot with fuel.
\<close>

datatype call =
    InvokeC eid
  | GetC addr key val
  | SetC addr key val val
  | ToRawC val
  | WrapC bool bool val
  | TriggerC addr TriggerOpTypes "key option" val
  | StopC eid

type_synonym dispatcher = "call \<Rightarrow> val comp"

section \<open>shared/src/index.ts\<close>

definition is_digit :: "char \<Rightarrow> bool" where
  "is_digit c = (48 \<le> (of_char c :: nat) \<and> (of_char c :: nat) \<le> 57)"

definition digits_val :: "string \<Rightarrow> nat" where
  "digits_val ds = foldl (\<lambda>n c. 10 * n + ((of_char c :: nat) - 48)) 0 ds"

definition is_space :: "char \<Rightarrow> bool" where
  "is_space c = ((of_char c :: nat) \<in> {9, 10, 11, 12, 13, 32})"

fun string_of_nat :: "nat \<Rightarrow> string" where
  "string_of_nat n =
     (if n < 10 then [char_of (48 + n)]
      else string_of_nat (n div 10) @ [char_of (48 + n mod 10)])"

declare string_of_nat.simps [simp del]

text \<open>\<open>'' + n\<close> for a number: \<open>NaN\<close> is \<open>None\<close>.\<close>

definition string_of_number :: "int option \<Rightarrow> string" where
  "string_of_number n = (case n of
      None \<Rightarrow> ''NaN''
    | Some i \<Rightarrow> if i < 0 then CHR ''-'' # string_of_nat (nat (- i)) else string_of_nat (nat i))"

text \<open>\<open>parseInt(s, 10)\<close>: leading white space, a sign, the longest prefix of digits.\<close>

definition parseInt :: "string \<Rightarrow> int option" where
  "parseInt s =
     (let t = dropWhile is_space s;
          neg = (t \<noteq> [] \<and> hd t = CHR ''-'');
          u = (if t \<noteq> [] \<and> (hd t = CHR ''-'' \<or> hd t = CHR ''+'') then tl t else t);
          ds = takeWhile is_digit u
      in if ds = [] then None
         else Some (if neg then - int (digits_val ds) else int (digits_val ds)))"

definition isSymbol :: "key \<Rightarrow> bool" where
  "isSymbol k = (case k of Str _ \<Rightarrow> False | _ \<Rightarrow> True)"

definition isIntegerKey :: "key \<Rightarrow> bool" where
  "isIntegerKey k = (case k of
      Str s \<Rightarrow> s \<noteq> ''NaN'' \<and> (s = [] \<or> hd s \<noteq> CHR ''-'') \<and> string_of_number (parseInt s) = s
    | _ \<Rightarrow> False)"

text \<open>\<open>===\<close> on values: objects by identity, \<open>NaN\<close> equal to nothing.\<close>

definition strict_eq :: "val \<Rightarrow> val \<Rightarrow> bool" where
  "strict_eq a b = (a \<noteq> NaN \<and> a = b)"

definition hasChanged :: "val \<Rightarrow> val \<Rightarrow> bool" where
  "hasChanged v oldValue = (\<not> strict_eq v oldValue \<and> (strict_eq v v \<or> strict_eq oldValue oldValue))"

definition isObject :: "val \<Rightarrow> bool" where
  "isObject v = (case v of Obj _ \<Rightarrow> True | _ \<Rightarrow> False)"

definition truthy :: "val \<Rightarrow> bool" where
  "truthy v = (case v of
      Undefined \<Rightarrow> False | Null \<Rightarrow> False | Bool b \<Rightarrow> b | Num n \<Rightarrow> n \<noteq> 0
    | NaN \<Rightarrow> False | String s \<Rightarrow> s \<noteq> [] | Obj _ \<Rightarrow> True | Fun _ \<Rightarrow> True)"

section \<open>effect.ts: the tracker\<close>

text \<open>The \<open>Dep\<close> of a target and a key: the effects in insertion order, \<open>[]\<close> when
  \<open>targetMap\<close> has none.\<close>

definition dep_of :: "state \<Rightarrow> addr \<Rightarrow> key \<Rightarrow> eid list" where
  "dep_of s target k = (case targetMap s target of
      None \<Rightarrow> []
    | Some depsMap \<Rightarrow> (case map_of depsMap k of None \<Rightarrow> [] | Some dep \<Rightarrow> dep))"

text \<open>\<open>dep.delete(effect)\<close> on the \<open>Dep\<close> named \<open>(target, k)\<close>.\<close>

definition dep_delete :: "eid \<Rightarrow> addr \<times> key \<Rightarrow> (addr \<rightharpoonup> (key \<times> eid list) list) \<Rightarrow> (addr \<rightharpoonup> (key \<times> eid list) list)" where
  "dep_delete e d tm = (case tm (fst d) of
      None \<Rightarrow> tm
    | Some depsMap \<Rightarrow> tm(fst d \<mapsto> map (\<lambda>(k, dep). if k = snd d then (k, removeAll e dep) else (k, dep)) depsMap))"

definition cleanup :: "eid \<Rightarrow> state \<Rightarrow> state" where
  "cleanup e s =
     (let ds = deps (effects s e)
      in if ds \<noteq> []
         then s\<lparr>targetMap := fold (dep_delete e) ds (targetMap s),
                effects := (effects s)(e := (effects s e)\<lparr>deps := []\<rparr>)\<rparr>
         else s)"

definition pauseTracking :: "state \<Rightarrow> state" where
  "pauseTracking s = s\<lparr>trackStack := trackStack s @ [shouldTrack s], shouldTrack := False\<rparr>"

definition enableTracking :: "state \<Rightarrow> state" where
  "enableTracking s = s\<lparr>trackStack := trackStack s @ [shouldTrack s], shouldTrack := True\<rparr>"

definition resetTracking :: "state \<Rightarrow> state" where
  "resetTracking s =
     (if trackStack s = [] then s\<lparr>shouldTrack := True\<rparr>
      else s\<lparr>trackStack := butlast (trackStack s), shouldTrack := last (trackStack s)\<rparr>)"

definition track :: "addr \<Rightarrow> TrackOpTypes \<Rightarrow> key \<Rightarrow> state \<Rightarrow> state" where
  "track target type k s0 =
     (let s = s0\<lparr>history := history s0 @ [TrackCall (activeEffect s0) (shouldTrack s0) target type k]\<rparr>
      in case activeEffect s of
           None \<Rightarrow> s
         | Some e \<Rightarrow>
             if \<not> shouldTrack s then s
             else
               let depsMap = (case targetMap s target of None \<Rightarrow> [] | Some m \<Rightarrow> m);
                   depsMap' = (case map_of depsMap k of None \<Rightarrow> AList.update k [] depsMap | Some _ \<Rightarrow> depsMap);
                   dep = (case map_of depsMap' k of None \<Rightarrow> [] | Some d \<Rightarrow> d)
               in if e \<in> set dep then s\<lparr>targetMap := (targetMap s)(target \<mapsto> depsMap')\<rparr>
                  else s\<lparr>targetMap := (targetMap s)(target \<mapsto> AList.update k (dep @ [e]) depsMap'),
                         effects := (effects s)(e := (effects s e)\<lparr>deps := deps (effects s e) @ [(target, k)]\<rparr>)\<rparr>)"

section \<open>User functions\<close>

text \<open>A property read \<open>v[k]\<close> and a property write \<open>v[k] = x\<close> on any value. Reading a
  property of \<open>undefined\<close> or \<open>null\<close> throws; the properties of the other primitives and
  of function values are not modelled and read as \<open>undefined\<close>.\<close>

definition get_prop :: "dispatcher \<Rightarrow> val \<Rightarrow> key \<Rightarrow> val comp" where
  "get_prop call v k = (case v of
      Obj a \<Rightarrow> call (GetC a k v)
    | Undefined \<Rightarrow> throw TypeError
    | Null \<Rightarrow> throw TypeError
    | _ \<Rightarrow> ret Undefined)"

definition set_prop :: "dispatcher \<Rightarrow> val \<Rightarrow> key \<Rightarrow> val \<Rightarrow> val comp" where
  "set_prop call v k x = (case v of
      Obj a \<Rightarrow> call (SetC a k x v)
    | Undefined \<Rightarrow> throw TypeError
    | Null \<Rightarrow> throw TypeError
    | _ \<Rightarrow> ret (Bool False))"

definition call_fn :: "dispatcher \<Rightarrow> val \<Rightarrow> val comp" where
  "call_fn call f = (case f of
      Fun (EffectFn e) \<Rightarrow> call (InvokeC e)
    | Fun _ \<Rightarrow> unmodelled
    | _ \<Rightarrow> throw TypeError)"

primrec exec :: "dispatcher \<Rightarrow> prog \<Rightarrow> val comp" where
  "exec call (Return v) = ret v"
| "exec call (Throw v) = throw v"
| "exec call (GetProp v k c) = bnd (get_prop call v k) (\<lambda>x. exec call (c x))"
| "exec call (SetProp v k x p) = bnd (set_prop call v k x) (\<lambda>_. exec call p)"
| "exec call (CallFn f c) = bnd (call_fn call f) (\<lambda>x. exec call (c x))"
| "exec call (Track target type k p) = bnd (modify (track target type k)) (\<lambda>_. exec call p)"
| "exec call (Trigger target type k x p) = bnd (call (TriggerC target type k x)) (\<lambda>_. exec call p)"
| "exec call (Stop e p) = bnd (call (StopC e)) (\<lambda>_. exec call p)"
| "exec call (Wrap isReadonly shallow v c) = bnd (call (WrapC isReadonly shallow v)) (\<lambda>x. exec call (c x))"
| "exec call (ToRaw v c) = bnd (call (ToRawC v)) (\<lambda>x. exec call (c x))"
| "exec call (PauseTracking p) = bnd (modify pauseTracking) (\<lambda>_. exec call p)"
| "exec call (EnableTracking p) = bnd (modify enableTracking) (\<lambda>_. exec call p)"
| "exec call (ResetTracking p) = bnd (modify resetTracking) (\<lambda>_. exec call p)"

section \<open>Objects seen through proxies\<close>

text \<open>
  \<open>Array.isArray\<close>, \<open>Object.prototype.toString\<close>, \<open>Object.isExtensible\<close> and
  \<open>hasOwnProperty\<close> have no trap in the handlers of this module: on a proxy they answer
  for its target. A proxy is allocated after its target, so the chain of targets descends
  through the addresses.
\<close>

fun underlying :: "(addr \<rightharpoonup> obj) \<Rightarrow> addr \<Rightarrow> addr" where
  "underlying h a = (case h a of
      Some (Proxy t _ _ _) \<Rightarrow> if t < a then underlying h t else a
    | _ \<Rightarrow> a)"

declare underlying.simps [simp del]

definition toRawType :: "state \<Rightarrow> addr \<Rightarrow> string" where
  "toRawType s a = (case heap s (underlying (heap s) a) of
      Some (Array _ _ _) \<Rightarrow> ''Array''
    | Some (Collection TMap _) \<Rightarrow> ''Map''
    | Some (Collection TSet _) \<Rightarrow> ''Set''
    | Some (Collection TWeakMap _) \<Rightarrow> ''WeakMap''
    | Some (Collection TWeakSet _) \<Rightarrow> ''WeakSet''
    | Some Builtin \<Rightarrow> ''Date''
    | _ \<Rightarrow> ''Object'')"

definition isArray :: "state \<Rightarrow> addr \<Rightarrow> bool" where
  "isArray s a = (case heap s (underlying (heap s) a) of Some (Array _ _ _) \<Rightarrow> True | _ \<Rightarrow> False)"

definition isMap :: "state \<Rightarrow> addr \<Rightarrow> bool" where
  "isMap s a = (toRawType s a = ''Map'')"

definition isExtensible :: "state \<Rightarrow> addr \<Rightarrow> bool" where
  "isExtensible s a = (case heap s (underlying (heap s) a) of
      Some (Plain _ _ ext) \<Rightarrow> ext
    | Some (Array _ _ ext) \<Rightarrow> ext
    | _ \<Rightarrow> True)"

text \<open>The index named by an integer key.\<close>

definition index_of :: "key \<Rightarrow> nat" where
  "index_of k = (case k of Str s \<Rightarrow> digits_val s | _ \<Rightarrow> 0)"

definition hasOwn :: "state \<Rightarrow> addr \<Rightarrow> key \<Rightarrow> bool" where
  "hasOwn s a k = (case heap s (underlying (heap s) a) of
      Some (Plain props _ _) \<Rightarrow> map_of props k \<noteq> None
    | Some (Array elems props _) \<Rightarrow>
        k = Str ''length'' \<or> (isIntegerKey k \<and> index_of k < length elems) \<or> map_of props k \<noteq> None
    | Some (RefImpl _ _) \<Rightarrow> k \<in> {Str ''_value'', Str ''_shallow'', Str ''__v_isRef''}
    | Some (ComputedRefImpl _ _ _ _ _) \<Rightarrow>
        k \<in> {Str ''_value'', Str ''_dirty'', Str ''effect'', Str ''_setter'', Str ''__v_isRef'', Str ''__v_isReadonly''}
    | _ \<Rightarrow> False)"

section \<open>The comparison \<open>key >= newValue\<close>\<close>

text \<open>
  \<open>ToNumber\<close> of a string: white space is trimmed, the empty string is 0, a string of
  digits with an optional sign is its value, a string with no digit that is not an
  infinity is \<open>NaN\<close> (\<open>Ok None\<close>). The other numeric literals (fractions, exponents,
  hexadecimal, infinities) are not modelled.
\<close>

definition toNumber_string :: "string \<Rightarrow> int option outcome" where
  "toNumber_string s =
     (let t = rev (dropWhile is_space (rev (dropWhile is_space s)))
      in if t = [] then Ok (Some 0)
         else if list_all is_digit t then Ok (Some (int (digits_val t)))
         else if hd t = CHR ''+'' \<and> tl t \<noteq> [] \<and> list_all is_digit (tl t) then Ok (Some (int (digits_val (tl t))))
         else if hd t = CHR ''-'' \<and> tl t \<noteq> [] \<and> list_all is_digit (tl t) then Ok (Some (- int (digits_val (tl t))))
         else if \<not> list_ex is_digit t \<and> t \<notin> {''Infinity'', ''+Infinity'', ''-Infinity''} then Ok None
         else Unmodelled)"

definition toNumber :: "val \<Rightarrow> int option outcome" where
  "toNumber v = (case v of
      Undefined \<Rightarrow> Ok None
    | Null \<Rightarrow> Ok (Some 0)
    | Bool b \<Rightarrow> Ok (Some (if b then 1 else 0))
    | Num n \<Rightarrow> Ok (Some n)
    | NaN \<Rightarrow> Ok None
    | String s \<Rightarrow> toNumber_string s
    | Obj _ \<Rightarrow> Unmodelled
    | Fun _ \<Rightarrow> Unmodelled)"

text \<open>\<open>s < t\<close> on strings, by code units.\<close>

fun string_less :: "string \<Rightarrow> string \<Rightarrow> bool" where
  "string_less [] [] = False"
| "string_less [] (y # ys) = True"
| "string_less (x # xs) [] = False"
| "string_less (x # xs) (y # ys) = ((of_char x :: nat) < of_char y \<or> (x = y \<and> string_less xs ys))"

text \<open>
  \<open>key >= newValue\<close>: two strings compare as strings, a symbol throws a TypeError,
  everything else compares as numbers, and a comparison with \<open>NaN\<close> is false.
\<close>

definition js_ge :: "key \<Rightarrow> val \<Rightarrow> bool outcome" where
  "js_ge k v = (case v of
      Obj _ \<Rightarrow> Unmodelled
    | Fun _ \<Rightarrow> Unmodelled
    | _ \<Rightarrow> (case k of
        Str s \<Rightarrow> (case v of
            String t \<Rightarrow> Ok (\<not> string_less s t)
          | _ \<Rightarrow> (case toNumber_string s of
                Ok a \<Rightarrow> (case toNumber v of
                    Ok b \<Rightarrow> Ok (case (a, b) of (Some x, Some y) \<Rightarrow> y \<le> x | _ \<Rightarrow> False)
                  | Thrown e \<Rightarrow> Thrown e | OutOfFuel \<Rightarrow> OutOfFuel | Unmodelled \<Rightarrow> Unmodelled)
              | Thrown e \<Rightarrow> Thrown e | OutOfFuel \<Rightarrow> OutOfFuel | Unmodelled \<Rightarrow> Unmodelled))
      | _ \<Rightarrow> Thrown TypeError))"

section \<open>computed.ts: the scheduler of a computed's effect\<close>

text \<open>The closure \<open>() => { if (!this._dirty) { this._dirty = true; trigger(toRaw(this),
  SET, 'value') } }\<close> of the instance at \<open>c\<close>.\<close>

definition computed_scheduler :: "dispatcher \<Rightarrow> addr \<Rightarrow> val comp" where
  "computed_scheduler call c = (\<lambda>s. case heap s c of
      Some (ComputedRefImpl v dirty e setter ro) \<Rightarrow>
        if \<not> dirty
        then bnd (call (ToRawC (Obj c)))
               (\<lambda>self. case self of
                   Obj t \<Rightarrow> call (TriggerC t SET (Some (Str ''value'')) Undefined)
                 | _ \<Rightarrow> unmodelled)
               (s\<lparr>heap := (heap s)(c \<mapsto> ComputedRefImpl v True e setter ro)\<rparr>)
        else (Ok Undefined, s)
    | _ \<Rightarrow> (Unmodelled, s))"

section \<open>effect.ts: trigger\<close>

text \<open>The local function \<open>add\<close>: the set \<open>effects\<close> is the list of its members in
  insertion order.\<close>

definition add :: "state \<Rightarrow> eid list option \<Rightarrow> eid list \<Rightarrow> eid list" where
  "add s effectsToAdd effs = (case effectsToAdd of
      None \<Rightarrow> effs
    | Some dep \<Rightarrow>
        fold (\<lambda>e acc. if (Some e \<noteq> activeEffect s \<or> allowRecurse (effects s e)) \<and> e \<notin> set acc
                       then acc @ [e] else acc) dep effs)"

text \<open>\<open>depsMap.forEach((dep, key) => { if (key === 'length' || key >= newValue) add(dep) })\<close>\<close>

fun collect_length :: "state \<Rightarrow> val \<Rightarrow> (key \<times> eid list) list \<Rightarrow> eid list \<Rightarrow> eid list outcome" where
  "collect_length s newValue [] effs = Ok effs"
| "collect_length s newValue ((k, dep) # rest) effs =
     (if k = Str ''length'' then collect_length s newValue rest (add s (Some dep) effs)
      else case js_ge k newValue of
          Ok b \<Rightarrow> collect_length s newValue rest (if b then add s (Some dep) effs else effs)
        | Thrown e \<Rightarrow> Thrown e
        | OutOfFuel \<Rightarrow> OutOfFuel
        | Unmodelled \<Rightarrow> Unmodelled)"

text \<open>The effects that \<open>trigger\<close> collects before it runs any of them.\<close>

definition collect :: "state \<Rightarrow> (key \<times> eid list) list \<Rightarrow> addr \<Rightarrow> TriggerOpTypes \<Rightarrow> key option \<Rightarrow> val \<Rightarrow> eid list outcome" where
  "collect s depsMap target type k newValue =
     (if type = CLEAR then Ok (fold (\<lambda>(k', dep) effs. add s (Some dep) effs) depsMap [])
      else if k = Some (Str ''length'') \<and> isArray s target then collect_length s newValue depsMap []
      else
        let effs = (case k of Some k' \<Rightarrow> add s (map_of depsMap k') [] | None \<Rightarrow> [])
        in Ok (case type of
            ADD \<Rightarrow>
              if \<not> isArray s target
              then (let effs' = add s (map_of depsMap ITERATE_KEY) effs
                    in if isMap s target then add s (map_of depsMap MAP_KEY_ITERATE_KEY) effs' else effs')
              else if (case k of Some k' \<Rightarrow> isIntegerKey k' | None \<Rightarrow> False)
              then add s (map_of depsMap (Str ''length'')) effs
              else effs
          | DELETE \<Rightarrow>
              if \<not> isArray s target
              then (let effs' = add s (map_of depsMap ITERATE_KEY) effs
                    in if isMap s target then add s (map_of depsMap MAP_KEY_ITERATE_KEY) effs' else effs')
              else effs
          | SET \<Rightarrow> if isMap s target then add s (map_of depsMap ITERATE_KEY) effs else effs
          | CLEAR \<Rightarrow> effs))"

text \<open>The local function \<open>run\<close> of \<open>trigger\<close>.\<close>

definition trigger_run :: "dispatcher \<Rightarrow> eid \<Rightarrow> val comp" where
  "trigger_run call e = (\<lambda>s. case scheduler (options (effects s e)) of
      Some (Scheduler f) \<Rightarrow> exec call (f e) s
    | Some (ComputedScheduler c) \<Rightarrow> computed_scheduler call c s
    | None \<Rightarrow> call (InvokeC e) s)"

primrec forEach :: "('a \<Rightarrow> val comp) \<Rightarrow> 'a list \<Rightarrow> val comp" where
  "forEach f [] = ret Undefined"
| "forEach f (x # xs) = bnd (f x) (\<lambda>_. forEach f xs)"

definition trigger :: "dispatcher \<Rightarrow> addr \<Rightarrow> TriggerOpTypes \<Rightarrow> key option \<Rightarrow> val \<Rightarrow> val comp" where
  "trigger call target type k newValue = (\<lambda>s0.
     let s = s0\<lparr>history := history s0 @ [TriggerCall target type k]\<rparr>
     in case targetMap s target of
          None \<Rightarrow> (Ok Undefined, s)
        | Some depsMap \<Rightarrow>
            (case collect s depsMap target type k newValue of
               Ok effs \<Rightarrow> forEach (trigger_run call) effs s
             | Thrown e \<Rightarrow> (Thrown e, s)
             | OutOfFuel \<Rightarrow> (OutOfFuel, s)
             | Unmodelled \<Rightarrow> (Unmodelled, s)))"

section \<open>reactive.ts\<close>

abbreviation SKIP :: key where "SKIP \<equiv> Str ''__v_skip''"

abbreviation IS_REACTIVE :: key where "IS_REACTIVE \<equiv> Str ''__v_isReactive''"

abbreviation IS_READONLY :: key where "IS_READONLY \<equiv> Str ''__v_isReadonly''"

abbreviation RAW :: key where "RAW \<equiv> Str ''__v_raw''"

text \<open>The four proxy maps; each wrapper passes the one of its flavor.\<close>

definition proxyMap :: "bool \<Rightarrow> bool \<Rightarrow> state \<Rightarrow> (addr \<rightharpoonup> addr)" where
  "proxyMap isReadonly shallow s =
     (if isReadonly then (if shallow then shallowReadonlyMap s else readonlyMap s)
      else (if shallow then shallowReactiveMap s else reactiveMap s))"

definition proxyMap_set :: "bool \<Rightarrow> bool \<Rightarrow> addr \<Rightarrow> addr \<Rightarrow> state \<Rightarrow> state" where
  "proxyMap_set isReadonly shallow target proxy s =
     (if isReadonly
      then (if shallow then s\<lparr>shallowReadonlyMap := (shallowReadonlyMap s)(target \<mapsto> proxy)\<rparr>
            else s\<lparr>readonlyMap := (readonlyMap s)(target \<mapsto> proxy)\<rparr>)
      else (if shallow then s\<lparr>shallowReactiveMap := (shallowReactiveMap s)(target \<mapsto> proxy)\<rparr>
            else s\<lparr>reactiveMap := (reactiveMap s)(target \<mapsto> proxy)\<rparr>))"

datatype TargetType = INVALID | COMMON | COLLECTION

definition targetTypeMap :: "string \<Rightarrow> TargetType" where
  "targetTypeMap rawType =
     (if rawType = ''Object'' \<or> rawType = ''Array'' then COMMON
      else if rawType = ''Map'' \<or> rawType = ''Set'' \<or> rawType = ''WeakMap'' \<or> rawType = ''WeakSet''
      then COLLECTION
      else INVALID)"

definition getTargetType :: "dispatcher \<Rightarrow> addr \<Rightarrow> TargetType comp" where
  "getTargetType call a =
     bnd (get_prop call (Obj a) SKIP)
       (\<lambda>skip s. (Ok (if truthy skip \<or> \<not> isExtensible s a then INVALID
                       else targetTypeMap (toRawType s a)), s))"

text \<open>
  \<open>createReactiveObject(target, isReadonly, baseHandlers, collectionHandlers, proxyMap)\<close>:
  the handlers and the map are those of the flavor \<open>(isReadonly, shallow)\<close>.
\<close>

definition createReactiveObject :: "dispatcher \<Rightarrow> val \<Rightarrow> bool \<Rightarrow> bool \<Rightarrow> val comp" where
  "createReactiveObject call target isReadonly shallow = (case target of
      Obj a \<Rightarrow>
        bnd (get_prop call target RAW) (\<lambda>r.
        bnd (if truthy r \<and> isReadonly then get_prop call target IS_REACTIVE else ret Undefined) (\<lambda>ir.
          if truthy r \<and> \<not> (isReadonly \<and> truthy ir) then ret target
          else (\<lambda>s. case proxyMap isReadonly shallow s a of
              Some existingProxy \<Rightarrow> (Ok (Obj existingProxy), s)
            | None \<Rightarrow>
                bnd (getTargetType call a) (\<lambda>targetType s'.
                  if targetType = INVALID then (Ok target, s')
                  else (Ok (Obj (nextAddr s')),
                        proxyMap_set isReadonly shallow a (nextAddr s')
                          (s'\<lparr>heap := (heap s')(nextAddr s' \<mapsto> Proxy a isReadonly shallow (targetType = COLLECTION)),
                              nextAddr := Suc (nextAddr s')\<rparr>))) s)))
    | _ \<Rightarrow> ret target)"

definition reactive :: "dispatcher \<Rightarrow> val \<Rightarrow> val comp" where
  "reactive call target =
     bnd (if truthy target then get_prop call target IS_READONLY else ret Undefined)
       (\<lambda>ro. if truthy target \<and> truthy ro then ret target
              else createReactiveObject call target False False)"

definition shallowReactive :: "dispatcher \<Rightarrow> val \<Rightarrow> val comp" where
  "shallowReactive call target = createReactiveObject call target False True"

definition readonly :: "dispatcher \<Rightarrow> val \<Rightarrow> val comp" where
  "readonly call target = createReactiveObject call target True False"

definition shallowReadonly :: "dispatcher \<Rightarrow> val \<Rightarrow> val comp" where
  "shallowReadonly call target = createReactiveObject call target True True"

definition wrap :: "dispatcher \<Rightarrow> bool \<Rightarrow> bool \<Rightarrow> val \<Rightarrow> val comp" where
  "wrap call isReadonly shallow target =
     (if isReadonly then (if shallow then shallowReadonly call target else readonly call target)
      else (if shallow then shallowReactive call target else reactive call target))"

text \<open>\<open>(observed && toRaw(observed[RAW])) || observed\<close>\<close>

definition toRaw :: "dispatcher \<Rightarrow> val \<Rightarrow> val comp" where
  "toRaw call observed =
     (if truthy observed
      then bnd (get_prop call observed RAW) (\<lambda>r.
           bnd (call (ToRawC r)) (\<lambda>r'. ret (if truthy r' then r' else observed)))
      else ret observed)"

section \<open>ref.ts\<close>

text \<open>Modelled from the spec: \<open>isRef\<close> of ref.ts, which is not among the sources:
  "\<open>is-ref(x)\<close> reads the brand".\<close>

definition isRef :: "dispatcher \<Rightarrow> val \<Rightarrow> bool comp" where
  "isRef call r =
     (if truthy r then bnd (get_prop call r (Str ''__v_isRef'')) (\<lambda>b. ret (b = Bool True))
      else ret False)"

text \<open>Modelled from the spec: the accessors of a ref (ref.ts is not among the sources):
  "Reading \<open>.value\<close> calls \<open>track(self, READ, "value")\<close>. Writing \<open>.value = new\<close> with
  NaN-aware change detection calls \<open>trigger(self, SET, "value", new, old)\<close>. Deep refs wrap
  object payloads using \<open>wrap(\<cdot>, mutable-deep)\<close> on write; shallow refs do not."\<close>

definition ref_get :: "addr \<Rightarrow> val comp" where
  "ref_get a = (\<lambda>s. case heap s a of
      Some (RefImpl v sh) \<Rightarrow> (Ok v, track a GET (Str ''value'') s)
    | _ \<Rightarrow> (Unmodelled, s))"

definition ref_set :: "dispatcher \<Rightarrow> addr \<Rightarrow> val \<Rightarrow> val comp" where
  "ref_set call a newVal = (\<lambda>s. case heap s a of
      Some (RefImpl old sh) \<Rightarrow>
        if hasChanged newVal old
        then bnd (if sh then ret newVal else call (WrapC False False newVal)) (\<lambda>w.
             bnd (modify (\<lambda>s'. s'\<lparr>heap := (heap s')(a \<mapsto> RefImpl w sh)\<rparr>)) (\<lambda>_.
             bnd (call (TriggerC a SET (Some (Str ''value'')) newVal)) (\<lambda>_. ret (Bool True)))) s
        else (Ok (Bool True), s)
    | _ \<Rightarrow> (Unmodelled, s))"

text \<open>Modelled from the spec: \<open>ref(v)\<close> and \<open>shallowRef(v)\<close> allocate the cell
  "\<open>{ value, dep, is-ref: true }\<close>".\<close>

definition ref :: "val \<Rightarrow> bool \<Rightarrow> state \<Rightarrow> addr \<times> state" where
  "ref v sh s = (nextAddr s, s\<lparr>heap := (heap s)(nextAddr s \<mapsto> RefImpl v sh), nextAddr := Suc (nextAddr s)\<rparr>)"

section \<open>baseHandlers.ts\<close>

definition isNonTrackableKeys :: "key \<Rightarrow> bool" where
  "isNonTrackableKeys k = (k \<in> {Str ''__proto__'', Str ''__v_isRef'', Str ''__isVue''})"

definition builtInSymbols_has :: "key \<Rightarrow> bool" where
  "builtInSymbols_has k = (case k of BuiltInSymbol _ \<Rightarrow> True | _ \<Rightarrow> False)"

definition arrayInstrumentations :: "string list" where
  "arrayInstrumentations = [''includes'', ''indexOf'', ''lastIndexOf'', ''push'', ''pop'', ''shift'', ''unshift'', ''splice'']"

definition createGetter :: "bool \<Rightarrow> bool \<Rightarrow> dispatcher \<Rightarrow> addr \<Rightarrow> key \<Rightarrow> val \<Rightarrow> val comp" where
  "createGetter isReadonly shallow call target k receiver = (\<lambda>s.
     if k = IS_REACTIVE then (Ok (Bool (\<not> isReadonly)), s)
     else if k = IS_READONLY then (Ok (Bool isReadonly), s)
     else if k = RAW \<and> (case proxyMap isReadonly shallow s target of Some p \<Rightarrow> receiver = Obj p | None \<Rightarrow> False)
     then (Ok (Obj target), s)
     else
       let targetIsArray = isArray s target
       in if \<not> isReadonly \<and> targetIsArray \<and> (case k of Str m \<Rightarrow> m \<in> set arrayInstrumentations | _ \<Rightarrow> False)
          then (Ok (Fun (ArrayInstrumentation (case k of Str m \<Rightarrow> m | _ \<Rightarrow> []))), s)
          else
            bnd (call (GetC target k receiver)) (\<lambda>res.
              if (if isSymbol k then builtInSymbols_has k else isNonTrackableKeys k) then ret res
              else
                bnd (if \<not> isReadonly then modify (track target GET k) else ret ()) (\<lambda>_.
                  if shallow then ret res
                  else
                    bnd (isRef call res) (\<lambda>resIsRef.
                      if resIsRef
                      then (if \<not> targetIsArray \<or> \<not> isIntegerKey k then get_prop call res (Str ''value'') else ret res)
                      else if isObject res
                      then (if isReadonly then readonly call res else reactive call res)
                      else ret res))) s)"

definition createSetter :: "bool \<Rightarrow> dispatcher \<Rightarrow> addr \<Rightarrow> key \<Rightarrow> val \<Rightarrow> val \<Rightarrow> val comp" where
  "createSetter shallow call target k v0 receiver =
     bnd (get_prop call (Obj target) k) (\<lambda>oldValue0.
     bnd (if \<not> shallow then call (ToRawC v0) else ret v0) (\<lambda>v.
     bnd (if \<not> shallow then call (ToRawC oldValue0) else ret oldValue0) (\<lambda>oldValue.
     bnd (\<lambda>s. if \<not> shallow \<and> \<not> isArray s target
               then bnd (isRef call oldValue) (\<lambda>oldIsRef.
                      if oldIsRef then bnd (isRef call v) (\<lambda>newIsRef. ret (\<not> newIsRef)) else ret False) s
               else (Ok False, s)) (\<lambda>delegate.
       if delegate then bnd (set_prop call oldValue (Str ''value'') v) (\<lambda>_. ret (Bool True))
       else
         bnd (\<lambda>s. if isArray s target \<and> isIntegerKey k
                   then bnd (get_prop call (Obj target) (Str ''length''))
                          (\<lambda>len. ret (case len of Num n \<Rightarrow> int (index_of k) < n | _ \<Rightarrow> False)) s
                   else (Ok (hasOwn s target k), s)) (\<lambda>hadKey.
         bnd (call (SetC target k v receiver)) (\<lambda>result.
         bnd (call (ToRawC receiver)) (\<lambda>rawReceiver.
         bnd (if Obj target = rawReceiver
              then (if \<not> hadKey then call (TriggerC target ADD (Some k) v)
                    else if hasChanged v oldValue then call (TriggerC target SET (Some k) v)
                    else ret Undefined)
              else ret Undefined) (\<lambda>_. ret result))))))))"

text \<open>\<open>readonlyHandlers.set\<close>: the write is refused (with a warning in development) and
  reports success.\<close>

definition readonly_set :: "addr \<Rightarrow> key \<Rightarrow> val comp" where
  "readonly_set target k = ret (Bool True)"

section \<open>computed.ts\<close>

text \<open>The accessor \<open>get value()\<close> of \<open>ComputedRefImpl\<close>, with \<open>this\<close> the receiver.\<close>

definition computed_get :: "dispatcher \<Rightarrow> val \<Rightarrow> val comp" where
  "computed_get call this =
     bnd (call (ToRawC this)) (\<lambda>self. case self of
         Obj c \<Rightarrow> (\<lambda>s. case heap s c of
             Some (ComputedRefImpl v dirty e setter ro) \<Rightarrow>
               bnd (if dirty
                    then bnd (get_prop call this (Str ''effect'')) (\<lambda>f.
                         bnd (call_fn call f) (\<lambda>x.
                           (\<lambda>s'. case heap s' c of
                               Some (ComputedRefImpl v' dirty' e' setter' ro') \<Rightarrow>
                                 (Ok (), s'\<lparr>heap := (heap s')(c \<mapsto> ComputedRefImpl x False e' setter' ro')\<rparr>)
                             | _ \<Rightarrow> (Unmodelled, s'))))
                    else ret ()) (\<lambda>_.
               bnd (modify (track c GET (Str ''value''))) (\<lambda>_ s'. case heap s' c of
                   Some (ComputedRefImpl v' dirty' e' setter' ro') \<Rightarrow> (Ok v', s')
                 | _ \<Rightarrow> (Unmodelled, s'))) s
           | _ \<Rightarrow> (Unmodelled, s))
       | _ \<Rightarrow> unmodelled)"

text \<open>The accessor \<open>set value(newValue)\<close>: \<open>this._setter(newValue)\<close>. A missing setter
  (\<open>None\<close>) is \<open>undefined\<close>, and calling it throws.\<close>

definition computed_set :: "dispatcher \<Rightarrow> addr \<Rightarrow> val \<Rightarrow> val comp" where
  "computed_set call c newValue = (\<lambda>s. case heap s c of
      Some (ComputedRefImpl v dirty e setter ro) \<Rightarrow>
        (case setter of
           Some f \<Rightarrow> bnd (exec call (f newValue)) (\<lambda>_. ret (Bool True)) s
         | None \<Rightarrow> (Thrown TypeError, s))
    | _ \<Rightarrow> (Unmodelled, s))"

section \<open>The internal methods of objects\<close>

definition reserved_flags :: "key set" where
  "reserved_flags = {SKIP, IS_REACTIVE, IS_READONLY, RAW, Str ''__v_isRef''}"

text \<open>A property of an array: an element, the length, another own property, or one of
  the methods of \<open>Array.prototype\<close> that \<open>arrayInstrumentations\<close> names; any other
  inherited property is not modelled and reads as \<open>undefined\<close>.\<close>

definition array_get :: "val list \<Rightarrow> (key \<times> val) list \<Rightarrow> key \<Rightarrow> val" where
  "array_get elems props k =
     (if k = Str ''length'' then Num (int (length elems))
      else if isIntegerKey k then (if index_of k < length elems then elems ! index_of k else Undefined)
      else case map_of props k of
          Some v \<Rightarrow> v
        | None \<Rightarrow> (case k of
              Str m \<Rightarrow> if m \<in> set arrayInstrumentations then Fun (ArrayMethod m) else Undefined
            | _ \<Rightarrow> Undefined))"

text \<open>Modelled from the spec: the \<open>get\<close> trap of the collection handlers
  (collectionHandlers.ts is not among the sources): a proxy "answers four reserved
  introspection keys: is-reactive, is-readonly, raw (returns Target), skip (opt-out marker
  on Target)". The method shims are not modelled.\<close>

definition collection_get :: "bool \<Rightarrow> dispatcher \<Rightarrow> addr \<Rightarrow> key \<Rightarrow> val \<Rightarrow> val comp" where
  "collection_get isReadonly call target k receiver =
     (if k = IS_REACTIVE then ret (Bool (\<not> isReadonly))
      else if k = IS_READONLY then ret (Bool isReadonly)
      else if k = RAW then ret (Obj target)
      else if k = SKIP then call (GetC target k receiver)
      else unmodelled)"

text \<open>\<open>O.[[Get]](k, receiver)\<close>, which is also \<open>Reflect.get(O, k, receiver)\<close>.\<close>

definition object_get :: "dispatcher \<Rightarrow> addr \<Rightarrow> key \<Rightarrow> val \<Rightarrow> val comp" where
  "object_get call a k receiver = (\<lambda>s. case heap s a of
      None \<Rightarrow> (Unmodelled, s)
    | Some (Plain props proto ext) \<Rightarrow>
        (case map_of props k of
           Some v \<Rightarrow> (Ok v, s)
         | None \<Rightarrow> (case proto of
               Obj p \<Rightarrow> call (GetC p k receiver) s
             | _ \<Rightarrow> if k = Str ''__proto__'' then (Unmodelled, s) else (Ok Undefined, s)))
    | Some (Array elems props ext) \<Rightarrow>
        if k = Str ''__proto__'' then (Unmodelled, s) else (Ok (array_get elems props k), s)
    | Some (Collection c skip) \<Rightarrow>
        if k = SKIP then (Ok (if skip then Bool True else Undefined), s)
        else if k \<in> reserved_flags then (Ok Undefined, s)
        else (Unmodelled, s)
    | Some Builtin \<Rightarrow> if k \<in> reserved_flags then (Ok Undefined, s) else (Unmodelled, s)
    | Some (Proxy target isReadonly shallow coll) \<Rightarrow>
        if coll then collection_get isReadonly call target k receiver s
        else createGetter isReadonly shallow call target k receiver s
    | Some (RefImpl v sh) \<Rightarrow>
        if k = Str ''value'' then ref_get a s
        else if k = Str ''__v_isRef'' then (Ok (Bool True), s)
        else if k \<in> reserved_flags then (Ok Undefined, s)
        else (Unmodelled, s)
    | Some (ComputedRefImpl v dirty e setter ro) \<Rightarrow>
        if k = Str ''value'' then computed_get call receiver s
        else if k = Str ''effect'' then (Ok (Fun (EffectFn e)), s)
        else if k = Str ''__v_isRef'' then (Ok (Bool True), s)
        else if k = IS_READONLY then (Ok (Bool ro), s)
        else if k = Str ''_value'' then (Ok v, s)
        else if k = Str ''_dirty'' then (Ok (Bool dirty), s)
        else if k \<in> reserved_flags then (Ok Undefined, s)
        else (Unmodelled, s))"

text \<open>Writing an own data property of an array. A new index beyond the length leaves
  holes, which read as \<open>undefined\<close> and are stored as such.\<close>

definition array_define :: "val list \<Rightarrow> (key \<times> val) list \<Rightarrow> bool \<Rightarrow> key \<Rightarrow> val \<Rightarrow> (obj \<times> bool) outcome" where
  "array_define elems props ext k v =
     (if k = Str ''length''
      then (case v of
          Num n \<Rightarrow>
            if 0 \<le> n
            then Ok (Array (take (nat n) elems @ replicate (nat n - length elems) Undefined) props ext, True)
            else Thrown RangeError
        | _ \<Rightarrow> Unmodelled)
      else if isIntegerKey k
      then (if index_of k < length elems then Ok (Array (elems[index_of k := v]) props ext, True)
            else if ext then Ok (Array (elems @ replicate (index_of k - length elems) Undefined @ [v]) props ext, True)
            else Ok (Array elems props ext, False))
      else if map_of props k \<noteq> None \<or> ext then Ok (Array elems (AList.update k v props) ext, True)
      else Ok (Array elems props ext, False))"

text \<open>
  The last step of an ordinary \<open>[[Set]]\<close>: the data property is defined on the receiver
  (\<open>[[GetOwnProperty]]\<close> and \<open>[[DefineOwnProperty]]\<close> have no trap, so on a proxy they act
  on the object under it).
\<close>

definition define_on_receiver :: "val \<Rightarrow> key \<Rightarrow> val \<Rightarrow> val comp" where
  "define_on_receiver receiver k v = (\<lambda>s. case receiver of
      Obj r \<Rightarrow>
        (let b = underlying (heap s) r
         in case heap s b of
              Some (Plain props proto ext) \<Rightarrow>
                if map_of props k \<noteq> None \<or> ext
                then (Ok (Bool True), s\<lparr>heap := (heap s)(b \<mapsto> Plain (AList.update k v props) proto ext)\<rparr>)
                else (Ok (Bool False), s)
            | Some (Array elems props ext) \<Rightarrow>
                (case array_define elems props ext k v of
                   Ok (ob, res) \<Rightarrow> (Ok (Bool res), s\<lparr>heap := (heap s)(b \<mapsto> ob)\<rparr>)
                 | Thrown e \<Rightarrow> (Thrown e, s)
                 | OutOfFuel \<Rightarrow> (OutOfFuel, s)
                 | Unmodelled \<Rightarrow> (Unmodelled, s))
            | _ \<Rightarrow> (Unmodelled, s))
    | _ \<Rightarrow> (Ok (Bool False), s))"

text \<open>\<open>O.[[Set]](k, v, receiver)\<close>, which is also \<open>Reflect.set(O, k, v, receiver)\<close>. The
  collection handlers have no \<open>set\<close> trap; what a write on their proxies does is not
  modelled.\<close>

definition object_set :: "dispatcher \<Rightarrow> addr \<Rightarrow> key \<Rightarrow> val \<Rightarrow> val \<Rightarrow> val comp" where
  "object_set call a k v receiver = (\<lambda>s. case heap s a of
      Some (Plain props proto ext) \<Rightarrow>
        (if map_of props k \<noteq> None then define_on_receiver receiver k v s
         else case proto of
             Obj p \<Rightarrow> call (SetC p k v receiver) s
           | _ \<Rightarrow> define_on_receiver receiver k v s)
    | Some (Array elems props ext) \<Rightarrow> define_on_receiver receiver k v s
    | Some (Proxy target isReadonly shallow coll) \<Rightarrow>
        if coll then (Unmodelled, s)
        else if isReadonly then readonly_set target k s
        else createSetter shallow call target k v receiver s
    | Some (RefImpl old sh) \<Rightarrow> if k = Str ''value'' then ref_set call a v s else (Unmodelled, s)
    | Some (ComputedRefImpl x dirty e setter ro) \<Rightarrow>
        if k = Str ''value'' \<and> receiver = Obj a then computed_set call a v s else (Unmodelled, s)
    | _ \<Rightarrow> (Unmodelled, s))"

section \<open>effect.ts: effects\<close>

text \<open>The function \<open>reactiveEffect\<close> that \<open>createReactiveEffect\<close> builds for the effect
  \<open>e\<close>: what calling the effect does.\<close>

definition reactiveEffect :: "dispatcher \<Rightarrow> eid \<Rightarrow> val comp" where
  "reactiveEffect call e = (\<lambda>s.
     if \<not> active (effects s e)
     then (case scheduler (options (effects s e)) of
             Some _ \<Rightarrow> (Ok Undefined, s)
           | None \<Rightarrow> exec call (raw (effects s e)) (s\<lparr>history := history s @ [FnCall e]\<rparr>))
     else if e \<notin> set (effectStack s)
     then try_finally
            (\<lambda>s1. let s2 = enableTracking s1;
                       s3 = s2\<lparr>effectStack := effectStack s2 @ [e], activeEffect := Some e\<rparr>
                   in exec call (raw (effects s3 e)) (s3\<lparr>history := history s3 @ [FnCall e]\<rparr>))
            (\<lambda>s1. let s2 = resetTracking (s1\<lparr>effectStack := butlast (effectStack s1)\<rparr>)
                   in s2\<lparr>activeEffect := (if effectStack s2 = [] then None else Some (last (effectStack s2)))\<rparr>)
            (cleanup e s)
     else (Ok Undefined, s))"

definition createReactiveEffect :: "prog \<Rightarrow> ReactiveEffectOptions \<Rightarrow> state \<Rightarrow> eid \<times> state" where
  "createReactiveEffect fn opts s =
     (uid s,
      s\<lparr>effects := (effects s)(uid s :=
           \<lparr>active = True, raw = fn, deps = [], options = opts, allowRecurse = allowRecurseOpt opts\<rparr>),
        uid := Suc (uid s)\<rparr>)"

text \<open>\<open>effect(fn, options)\<close>; \<open>fn\<close> may be an effect, whose \<open>raw\<close> is then taken.\<close>

datatype fn_arg = Fn prog | IsEffect eid

definition effect :: "dispatcher \<Rightarrow> fn_arg \<Rightarrow> ReactiveEffectOptions \<Rightarrow> state \<Rightarrow> eid outcome \<times> state" where
  "effect call fn opts s =
     (let fn' = (case fn of Fn p \<Rightarrow> p | IsEffect e \<Rightarrow> raw (effects s e));
          (e, s1) = createReactiveEffect fn' opts s
      in if \<not> lazy opts then bnd (call (InvokeC e)) (\<lambda>_. ret e) s1 else (Ok e, s1))"

definition stop :: "dispatcher \<Rightarrow> eid \<Rightarrow> val comp" where
  "stop call e = (\<lambda>s0.
     let s = s0\<lparr>history := history s0 @ [StopCall e]\<rparr>
     in if active (effects s e)
     then bnd (case onStop (options (effects s e)) of Some p \<Rightarrow> exec call p | None \<Rightarrow> ret Undefined)
            (\<lambda>_. bnd (modify (\<lambda>s'. s'\<lparr>effects := (effects s')(e := (effects s' e)\<lparr>active := False\<rparr>)\<rparr>))
                    (\<lambda>_. ret Undefined))
            (cleanup e s)
     else (Ok Undefined, s))"

section \<open>computed.ts: construction\<close>

text \<open>\<open>computed(getterOrOptions)\<close>: a getter function alone gives a read-only computed
  whose setter does nothing (it warns in development); an options object gives its
  \<open>get\<close> and \<open>set\<close>, and is read-only when \<open>set\<close> is missing.\<close>

datatype computed_arg = Getter prog | GetSet prog "(val \<Rightarrow> prog) option"

definition computed :: "computed_arg \<Rightarrow> state \<Rightarrow> addr \<times> state" where
  "computed getterOrOptions s =
     (let getter = (case getterOrOptions of Getter g \<Rightarrow> g | GetSet g _ \<Rightarrow> g);
          setter = (case getterOrOptions of Getter _ \<Rightarrow> Some (\<lambda>_. Return Undefined) | GetSet _ f \<Rightarrow> f);
          isReadonly = (case getterOrOptions of Getter _ \<Rightarrow> True | GetSet _ f \<Rightarrow> f = None);
          c = nextAddr s;
          (e, s1) = createReactiveEffect getter
                      \<lparr>lazy = True, scheduler = Some (ComputedScheduler c), onStop = None, allowRecurseOpt = False\<rparr> s
      in (c, s1\<lparr>heap := (heap s1)(c \<mapsto> ComputedRefImpl Undefined True e setter isReadonly),
                nextAddr := Suc c\<rparr>))"

section \<open>Tying the knot\<close>

definition step :: "dispatcher \<Rightarrow> dispatcher" where
  "step call c = (case c of
      InvokeC e \<Rightarrow> reactiveEffect call e
    | GetC a k receiver \<Rightarrow> object_get call a k receiver
    | SetC a k v receiver \<Rightarrow> object_set call a k v receiver
    | ToRawC v \<Rightarrow> toRaw call v
    | WrapC isReadonly shallow v \<Rightarrow> wrap call isReadonly shallow v
    | TriggerC target type k v \<Rightarrow> trigger call target type k v
    | StopC e \<Rightarrow> stop call e)"

text \<open>\<open>run n\<close> performs a call with at most \<open>n\<close> nested calls inside it.\<close>

primrec run :: "nat \<Rightarrow> dispatcher" where
  "run 0 = (\<lambda>c s. (OutOfFuel, s))"
| "run (Suc n) = step (run n)"

text \<open>A user function run at top level (no effect is running unless the state says so).\<close>

definition script :: "nat \<Rightarrow> prog \<Rightarrow> val comp" where
  "script n p = exec (run n) p"

definition init :: state where
  "init = \<lparr>heap = Map.empty, nextAddr = 0, targetMap = Map.empty,
     effects = (\<lambda>_. \<lparr>active = False, raw = Return Undefined, deps = [],
        options = \<lparr>lazy = True, scheduler = None, onStop = None, allowRecurseOpt = False\<rparr>,
        allowRecurse = False\<rparr>),
     uid = 0, effectStack = [], activeEffect = None, shouldTrack = True, trackStack = [],
     reactiveMap = Map.empty, shallowReactiveMap = Map.empty, readonlyMap = Map.empty,
     shallowReadonlyMap = Map.empty, history = []\<rparr>"

text \<open>Allocation of an object (an object or array literal of the host program).\<close>

definition alloc :: "obj \<Rightarrow> state \<Rightarrow> addr \<times> state" where
  "alloc ob s = (nextAddr s, s\<lparr>heap := (heap s)(nextAddr s \<mapsto> ob), nextAddr := Suc (nextAddr s)\<rparr>)"

section \<open>Specification: the dependency graph and the relation kept by every call\<close>

definition dep_in :: "(addr \<rightharpoonup> (key \<times> eid list) list) \<Rightarrow> addr \<Rightarrow> key \<Rightarrow> eid list" where
  "dep_in tm target k = (case tm target of
      None \<Rightarrow> []
    | Some depsMap \<Rightarrow> (case map_of depsMap k of None \<Rightarrow> [] | Some dep \<Rightarrow> dep))"

definition edge_sym :: "state \<Rightarrow> bool" where
  "edge_sym s = (\<forall>e t k. e \<in> set (dep_of s t k) \<longleftrightarrow> (t, k) \<in> set (deps (effects s e)))"

definition tracked :: "eid \<Rightarrow> event list \<Rightarrow> (addr \<times> key) set" where
  "tracked e evs = {(t, k). \<exists>ty. TrackCall (Some e) True t ty k \<in> set evs}"

definition wf_active :: "state \<Rightarrow> bool" where
  "wf_active s = (activeEffect s = (if effectStack s = [] then None else Some (last (effectStack s))))"

definition rel :: "eid \<Rightarrow> state \<Rightarrow> state \<Rightarrow> bool" where
  "rel e s s' =
     (effectStack s' = effectStack s
      \<and> (wf_active s \<longrightarrow> activeEffect s' = activeEffect s)
      \<and> (\<exists>evs. history s' = history s @ evs
            \<and> (\<forall>x. StopCall x \<notin> set evs \<longrightarrow> active (effects s' x) = active (effects s x))
            \<and> (edge_sym s \<longrightarrow> edge_sym s'
                 \<and> (e \<in> set (effectStack s) \<and> StopCall e \<notin> set evs \<longrightarrow>
                      set (deps (effects s' e)) = set (deps (effects s e)) \<union> tracked e evs))))"

definition enter :: "eid \<Rightarrow> state \<Rightarrow> state" where
  "enter e s =
     (let s2 = enableTracking (cleanup e s);
          s3 = s2\<lparr>effectStack := effectStack s2 @ [e], activeEffect := Some e\<rparr>
      in s3\<lparr>history := history s3 @ [FnCall e]\<rparr>)"

definition leave :: "state \<Rightarrow> state" where
  "leave s1 =
     (let s2 = resetTracking (s1\<lparr>effectStack := butlast (effectStack s1)\<rparr>)
      in s2\<lparr>activeEffect := (if effectStack s2 = [] then None else Some (last (effectStack s2)))\<rparr>)"

section \<open>Specification: raw objects and registered proxies\<close>

definition no_reserved :: "(key \<times> val) list \<Rightarrow> bool" where
  "no_reserved props = list_all (\<lambda>f. map_of props f = None) [SKIP, IS_REACTIVE, IS_READONLY, RAW, Str ''__v_isRef'']"

definition eligible :: "state \<Rightarrow> addr \<Rightarrow> bool" where
  "eligible s a = (a < nextAddr s \<and> (case heap s a of
      Some (Plain props proto ext) \<Rightarrow> ext \<and> \<not> isObject proto \<and> no_reserved props
    | Some (Array elems props ext) \<Rightarrow> ext \<and> no_reserved props
    | Some (Collection c skip) \<Rightarrow> \<not> skip
    | _ \<Rightarrow> False))"

definition proxies_ok :: "state \<Rightarrow> bool" where
  "proxies_ok s = (\<forall>ro sh a p. proxyMap ro sh s a = Some p \<longrightarrow>
      (\<exists>coll. heap s p = Some (Proxy a ro sh coll)))"

definition new_proxy :: "bool \<Rightarrow> bool \<Rightarrow> addr \<Rightarrow> state \<Rightarrow> state" where
  "new_proxy ro sh a s =
     proxyMap_set ro sh a (nextAddr s)
       (s\<lparr>heap := (heap s)(nextAddr s \<mapsto>
              Proxy a ro sh (case heap s a of Some (Collection _ _) \<Rightarrow> True | _ \<Rightarrow> False)),
          nextAddr := Suc (nextAddr s)\<rparr>)"


text \<open>The own data property \<open>k\<close> of an ordinary object or array.\<close>

definition own_data :: "obj option \<Rightarrow> key \<Rightarrow> val option" where
  "own_data ob k = (case ob of
      Some (Plain props _ _) \<Rightarrow> map_of props k
    | Some (Array elems props _) \<Rightarrow>
        if k = Str ''__proto__'' then None
        else if k = Str ''length'' then Some (Num (int (length elems)))
        else if isIntegerKey k then (if index_of k < length elems then Some (elems ! index_of k) else None)
        else map_of props k
    | _ \<Rightarrow> None)"

text \<open>The object after the write of an existing own data property.\<close>

definition writable :: "obj option \<Rightarrow> key \<Rightarrow> val \<Rightarrow> bool" where
  "writable ob k v = (case ob of
      Some (Array _ _ _) \<Rightarrow> k = Str ''length'' \<longrightarrow> (case v of Num m \<Rightarrow> 0 \<le> m | _ \<Rightarrow> False)
    | _ \<Rightarrow> True)"




section \<open>Scenarios\<close>

definition defaultOptions :: ReactiveEffectOptions where
  "defaultOptions = \<lparr>lazy = False, scheduler = None, onStop = None, allowRecurseOpt = False\<rparr>"

text \<open>S1: \<open>o = reactive({a: 1})\<close> (the object at 0, its proxy at 1), and the effect 0 that
  reads \<open>o.a\<close>.\<close>

definition S1_reactive :: state where
  "S1_reactive = snd (script 10 (Wrap False False (Obj 0) Return)
                        (snd (alloc (Plain [(Str ''a'', Num 1)] Null True) init)))"

definition S1_effect :: state where
  "S1_effect = snd (effect (run 10) (Fn (GetProp (Obj 1) (Str ''a'') Return)) defaultOptions S1_reactive)"


definition S1_alloc :: state where
  "S1_alloc = snd (alloc (Plain [(Str ''a'', Num 1)] Null True) init)"


text \<open>S2: \<open>a = reactive([10, 20, 30, 40])\<close> (the array at 0, its proxy at 1); the effects
  0, 1 and 2 read \<open>a[3]\<close>, \<open>a.length\<close> and \<open>a[0]\<close>; then \<open>a.length = 2\<close>.\<close>

definition S2_array :: state where
  "S2_array = snd (script 10 (Wrap False False (Obj 0) Return)
                     (snd (alloc (Array [Num 10, Num 20, Num 30, Num 40] [] True) init)))"

definition S2_effects :: state where
  "S2_effects =
     snd (effect (run 10) (Fn (GetProp (Obj 1) (Str ''0'') Return)) defaultOptions
       (snd (effect (run 10) (Fn (GetProp (Obj 1) (Str ''length'') Return)) defaultOptions
         (snd (effect (run 10) (Fn (GetProp (Obj 1) (Str ''3'') Return)) defaultOptions S2_array)))))"

definition S2_shrink :: state where
  "S2_shrink = snd (script 10 (SetProp (Obj 1) (Str ''length'') (Num 2) (Return Undefined)) S2_effects)"








section \<open>The relation is kept by every call\<close>

lemma dep_of_dep_in: "dep_of s t k = dep_in (targetMap s) t k"
  by (simp add: dep_of_def dep_in_def)

lemma map_of_dep_delete_aux:
  "map_of (map (\<lambda>(k, dep). if k = kd then (k, removeAll e dep) else (k, dep)) m) k'
     = map_option (\<lambda>dep. if k' = kd then removeAll e dep else dep) (map_of m k')"
  by (induction m) auto

lemma dep_in_dep_delete:
  "dep_in (dep_delete e d tm) t k = (if (t, k) = d then removeAll e (dep_in tm t k) else dep_in tm t k)"
  by (cases d) (auto simp: dep_in_def dep_delete_def map_of_dep_delete_aux split: option.splits)

lemma dep_in_fold_dep_delete:
  "dep_in (fold (dep_delete e) ds tm) t k
     = (if (t, k) \<in> set ds then removeAll e (dep_in tm t k) else dep_in tm t k)"
  by (induction ds arbitrary: tm) (auto simp: dep_in_dep_delete)

lemma dep_of_cleanup:
  "dep_of (cleanup e s) t k
     = (if (t, k) \<in> set (deps (effects s e)) then removeAll e (dep_of s t k) else dep_of s t k)"
  by (auto simp: cleanup_def Let_def dep_of_dep_in dep_in_fold_dep_delete)

lemma deps_cleanup:
  "deps (effects (cleanup e s) x) = (if x = e then [] else deps (effects s x))"
  by (auto simp: cleanup_def Let_def)

lemma cleanup_fields [simp]:
  "effectStack (cleanup e s) = effectStack s"
  "activeEffect (cleanup e s) = activeEffect s"
  "history (cleanup e s) = history s"
  "heap (cleanup e s) = heap s"
  "shouldTrack (cleanup e s) = shouldTrack s"
  "trackStack (cleanup e s) = trackStack s"
  "active (effects (cleanup e s) x) = active (effects s x)"
  "raw (effects (cleanup e s) x) = raw (effects s x)"
  "options (effects (cleanup e s) x) = options (effects s x)"
  "allowRecurse (effects (cleanup e s) x) = allowRecurse (effects s x)"
  by (auto simp: cleanup_def Let_def)

lemma edge_sym_cleanup: "edge_sym s \<Longrightarrow> edge_sym (cleanup e s)"
  unfolding edge_sym_def by (auto simp: dep_of_cleanup deps_cleanup)

lemma dep_of_track:
  "dep_of (track t ty k s) t' k'
     = (case activeEffect s of
          Some e \<Rightarrow> if shouldTrack s \<and> t' = t \<and> k' = k \<and> e \<notin> set (dep_of s t k)
                    then dep_of s t k @ [e] else dep_of s t' k'
        | None \<Rightarrow> dep_of s t' k')"
  by (auto simp: track_def Let_def dep_of_def update_conv' split: option.splits)

lemma deps_track:
  "deps (effects (track t ty k s) x)
     = (if activeEffect s = Some x \<and> shouldTrack s \<and> x \<notin> set (dep_of s t k)
        then deps (effects s x) @ [(t, k)] else deps (effects s x))"
  by (auto simp: track_def Let_def dep_of_def update_conv' split: option.splits)

lemma track_fields [simp]:
  "effectStack (track t ty k s) = effectStack s"
  "activeEffect (track t ty k s) = activeEffect s"
  "history (track t ty k s) = history s @ [TrackCall (activeEffect s) (shouldTrack s) t ty k]"
  "heap (track t ty k s) = heap s"
  "shouldTrack (track t ty k s) = shouldTrack s"
  "trackStack (track t ty k s) = trackStack s"
  "active (effects (track t ty k s) x) = active (effects s x)"
  "raw (effects (track t ty k s) x) = raw (effects s x)"
  "options (effects (track t ty k s) x) = options (effects s x)"
  "allowRecurse (effects (track t ty k s) x) = allowRecurse (effects s x)"
  by (auto simp: track_def Let_def split: option.splits)

lemma edge_sym_track: "edge_sym s \<Longrightarrow> edge_sym (track t ty k s)"
  unfolding edge_sym_def by (auto simp: dep_of_track deps_track split: option.splits)


lemma tracked_simps [simp]:
  "tracked e [] = {}"
  "tracked e (evs @ evs') = tracked e evs \<union> tracked e evs'"
  "tracked e [TriggerCall t ty ko] = {}"
  "tracked e [FnCall x] = {}"
  "tracked e [StopCall x] = {}"
  "tracked e [TrackCall a b t ty' k] = (if a = Some e \<and> b then {(t, k)} else {})"
  by (auto simp: tracked_def)

lemma rel_refl: "rel e s s"
  by (simp add: rel_def)

lemma rel_trans:
  assumes "rel e s s1" and "rel e s1 s2"
  shows "rel e s s2"
proof -
  from assms(1) obtain evs1 where 1: "effectStack s1 = effectStack s"
    "wf_active s \<longrightarrow> activeEffect s1 = activeEffect s"
    "history s1 = history s @ evs1"
    "\<forall>x. StopCall x \<notin> set evs1 \<longrightarrow> active (effects s1 x) = active (effects s x)"
    "edge_sym s \<longrightarrow> edge_sym s1
       \<and> (e \<in> set (effectStack s) \<and> StopCall e \<notin> set evs1 \<longrightarrow>
            set (deps (effects s1 e)) = set (deps (effects s e)) \<union> tracked e evs1)"
    unfolding rel_def by blast
  from assms(2) obtain evs2 where 2: "effectStack s2 = effectStack s1"
    "wf_active s1 \<longrightarrow> activeEffect s2 = activeEffect s1"
    "history s2 = history s1 @ evs2"
    "\<forall>x. StopCall x \<notin> set evs2 \<longrightarrow> active (effects s2 x) = active (effects s1 x)"
    "edge_sym s1 \<longrightarrow> edge_sym s2
       \<and> (e \<in> set (effectStack s1) \<and> StopCall e \<notin> set evs2 \<longrightarrow>
            set (deps (effects s2 e)) = set (deps (effects s1 e)) \<union> tracked e evs2)"
    unfolding rel_def by blast
  have wf: "wf_active s \<Longrightarrow> wf_active s1"
    using 1 by (simp add: wf_active_def)
  have h: "history s2 = history s @ (evs1 @ evs2)"
    using 1 2 by simp
  have a: "\<forall>x. StopCall x \<notin> set (evs1 @ evs2) \<longrightarrow> active (effects s2 x) = active (effects s x)"
    using 1(4) 2(4) by simp
  have d: "edge_sym s \<longrightarrow> edge_sym s2
       \<and> (e \<in> set (effectStack s) \<and> StopCall e \<notin> set (evs1 @ evs2) \<longrightarrow>
            set (deps (effects s2 e)) = set (deps (effects s e)) \<union> tracked e (evs1 @ evs2))"
    using 1(1,5) 2(5) by auto
  show ?thesis
    unfolding rel_def using 1(1,2) 2(1,2) wf h a d by (intro conjI exI[of _ "evs1 @ evs2"]) auto
qed

text \<open>A step that leaves the dependency graph, the stack and the active effect alone.\<close>

lemma rel_same:
  assumes "targetMap s' = targetMap s"
    and "\<And>x. deps (effects s' x) = deps (effects s x)"
    and "\<And>x. active (effects s' x) = active (effects s x)"
    and "effectStack s' = effectStack s"
    and "activeEffect s' = activeEffect s"
    and "history s' = history s @ evs"
    and "tracked e evs = {}"
  shows "rel e s s'"
proof -
  have "edge_sym s \<Longrightarrow> edge_sym s'"
    using assms(1,2) by (simp add: edge_sym_def dep_of_def)
  then show ?thesis
    unfolding rel_def using assms by (intro conjI exI[of _ evs]) auto
qed

lemma rel_track: "rel e s (track t ty k s)"
proof -
  have "edge_sym s \<Longrightarrow> e \<in> set (effectStack s) \<Longrightarrow>
      set (deps (effects (track t ty k s) e))
        = set (deps (effects s e)) \<union> tracked e [TrackCall (activeEffect s) (shouldTrack s) t ty k]"
    by (auto simp: deps_track edge_sym_def)
  then show ?thesis
    unfolding rel_def
    by (intro conjI exI[of _ "[TrackCall (activeEffect s) (shouldTrack s) t ty k]"])
       (auto simp: edge_sym_track)
qed

lemma rel_cleanup:
  assumes "e' = e \<longrightarrow> e \<notin> set (effectStack s) \<or> StopCall e \<in> set evs"
    and "tracked e evs = {}"
  shows "rel e s (cleanup e' (s\<lparr>history := history s @ evs\<rparr>))"
proof -
  have es: "edge_sym s \<Longrightarrow> edge_sym (cleanup e' (s\<lparr>history := history s @ evs\<rparr>))"
    by (rule edge_sym_cleanup) (simp add: edge_sym_def dep_of_def)
  show ?thesis
    unfolding rel_def using assms es
    by (intro conjI exI[of _ evs]) (auto simp: deps_cleanup)
qed

lemma rel_pauseTracking: "rel e s (pauseTracking s)"
  by (rule rel_same[where evs = "[]"]) (simp_all add: pauseTracking_def)

lemma rel_enableTracking: "rel e s (enableTracking s)"
  by (rule rel_same[where evs = "[]"]) (simp_all add: enableTracking_def)

lemma rel_resetTracking: "rel e s (resetTracking s)"
  by (rule rel_same[where evs = "[]"]) (simp_all add: resetTracking_def)

lemma rel_heap: "rel e s (s\<lparr>heap := h\<rparr>)"
  by (rule rel_same[where evs = "[]"]) simp_all

lemma rel_history:
  "tracked e evs = {} \<Longrightarrow> rel e s (s\<lparr>history := history s @ evs\<rparr>)"
  by (rule rel_same[where evs = evs]) simp_all

text \<open>The computations built from the dispatcher keep the relation when it does.\<close>

lemma rel_ret: "rel e s (snd (ret x s))"
  by (simp add: ret_def rel_refl)

lemma rel_throw: "rel e s (snd (throw x s))"
  by (simp add: throw_def rel_refl)

lemma rel_unmodelled: "rel e s (snd (unmodelled s))"
  by (simp add: unmodelled_def rel_refl)

lemma rel_modify: "rel e s (g s) \<Longrightarrow> rel e s (snd (modify g s))"
  by (simp add: modify_def)

lemma rel_bnd:
  assumes "\<And>s. rel e s (snd (m s))" and "\<And>x s. rel e s (snd (f x s))"
  shows "rel e s (snd (bnd m f s))"
proof (cases "m s")
  case (Pair r s1)
  have 1: "rel e s s1" using assms(1)[of s] Pair by simp
  show ?thesis
  proof (cases r)
    case (Ok x)
    have "rel e s1 (snd (f x s1))" by (rule assms(2))
    with 1 show ?thesis using Pair Ok by (auto simp: bnd_def intro: rel_trans)
  qed (use 1 Pair in \<open>auto simp: bnd_def\<close>)
qed


lemma get_prop_rel:
  assumes "\<And>c s. rel e s (snd (call c s))"
  shows "rel e s (snd (get_prop call v k s))"
  unfolding get_prop_def by (cases v) (auto intro!: assms rel_throw rel_ret)

lemma set_prop_rel:
  assumes "\<And>c s. rel e s (snd (call c s))"
  shows "rel e s (snd (set_prop call v k x s))"
  unfolding set_prop_def by (cases v) (auto intro!: assms rel_throw rel_ret)

lemma call_fn_rel:
  assumes "\<And>c s. rel e s (snd (call c s))"
  shows "rel e s (snd (call_fn call f s))"
  unfolding call_fn_def by (auto intro!: assms rel_throw rel_ret rel_unmodelled split: val.splits fnval.splits)

lemma exec_rel:
  assumes "\<And>c s. rel e s (snd (call c s))"
  shows "rel e s (snd (exec call p s))"
proof (induction p arbitrary: s)
  case (Return x)
  show ?case by (simp add: rel_ret)
next
  case (Throw x)
  show ?case by (simp add: rel_throw)
next
  case (GetProp v k c)
  show ?case by (auto intro!: rel_bnd get_prop_rel assms GetProp)
next
  case (SetProp v k x p)
  show ?case by (auto intro!: rel_bnd set_prop_rel assms SetProp)
next
  case (CallFn f c)
  show ?case by (auto intro!: rel_bnd call_fn_rel assms CallFn)
next
  case (Track t ty k p)
  show ?case by (auto intro!: rel_bnd rel_modify rel_track Track)
next
  case (Trigger t ty k x p)
  show ?case by (auto intro!: rel_bnd assms Trigger)
next
  case (Stop x p)
  show ?case by (auto intro!: rel_bnd assms Stop)
next
  case (Wrap ro sh v c)
  show ?case by (auto intro!: rel_bnd assms Wrap)
next
  case (ToRaw v c)
  show ?case by (auto intro!: rel_bnd assms ToRaw)
next
  case (PauseTracking p)
  show ?case by (auto intro!: rel_bnd rel_modify rel_pauseTracking PauseTracking)
next
  case (EnableTracking p)
  show ?case by (auto intro!: rel_bnd rel_modify rel_enableTracking EnableTracking)
next
  case (ResetTracking p)
  show ?case by (auto intro!: rel_bnd rel_modify rel_resetTracking ResetTracking)
qed

lemma computed_scheduler_rel:
  assumes "\<And>c s. rel e s (snd (call c s))"
  shows "rel e s (snd (computed_scheduler call c s))"
proof -
  have 1: "\<And>s. rel e s (snd (bnd (call (ToRawC (Obj c)))
               (\<lambda>self. case self of
                   Obj t \<Rightarrow> call (TriggerC t SET (Some (Str ''value'')) Undefined)
                 | _ \<Rightarrow> unmodelled) s))"
    by (auto intro!: rel_bnd assms rel_unmodelled split: val.splits)
  show ?thesis
    unfolding computed_scheduler_def
    by (auto split: option.splits obj.splits intro: rel_refl rel_trans[OF rel_heap 1])
qed

lemma forEach_rel:
  assumes "\<And>x s. rel e s (snd (f x s))"
  shows "rel e s (snd (forEach f xs s))"
  by (induction xs arbitrary: s) (auto intro!: rel_bnd rel_ret assms)

lemma trigger_run_rel:
  assumes "\<And>c s. rel e s (snd (call c s))"
  shows "rel e s (snd (trigger_run call x s))"
  unfolding trigger_run_def
  by (auto split: option.splits scheduler.splits intro!: exec_rel computed_scheduler_rel assms)

lemma trigger_rel:
  assumes "\<And>c s. rel e s (snd (call c s))"
  shows "rel e s (snd (trigger call target type k newValue s))"
proof -
  let ?s = "s\<lparr>history := history s @ [TriggerCall target type k]\<rparr>"
  have 0: "rel e s ?s" by (rule rel_history) simp
  have 1: "\<And>effs. rel e ?s (snd (forEach (trigger_run call) effs ?s))"
    by (intro forEach_rel trigger_run_rel assms)
  show ?thesis
    unfolding trigger_def Let_def
    by (auto split: option.splits outcome.splits intro: 0 rel_trans[OF 0 1])
qed

lemma rel_proxyMap_set: "rel e s (proxyMap_set ro sh a p s)"
  by (rule rel_same[where evs = "[]"]) (simp_all add: proxyMap_set_def)

lemma getTargetType_rel:
  assumes "\<And>c s. rel e s (snd (call c s))"
  shows "rel e s (snd (getTargetType call a s))"
  unfolding getTargetType_def by (auto intro!: rel_bnd get_prop_rel assms rel_refl)

lemma rel_new_proxy:
  "rel e s (proxyMap_set ro sh a p (s\<lparr>heap := h, nextAddr := n\<rparr>))"
  by (rule rel_same[where evs = "[]"]) (simp_all add: proxyMap_set_def)

lemma createReactiveObject_rel:
  assumes "\<And>c s. rel e s (snd (call c s))"
  shows "rel e s (snd (createReactiveObject call target ro sh s))"
  unfolding createReactiveObject_def
  by (auto split: val.splits option.splits
      intro!: rel_bnd get_prop_rel getTargetType_rel assms rel_ret rel_refl rel_new_proxy)

lemma reactive_rel:
  assumes "\<And>c s. rel e s (snd (call c s))"
  shows "rel e s (snd (reactive call target s))"
  unfolding reactive_def
  by (auto intro!: rel_bnd get_prop_rel createReactiveObject_rel assms rel_ret)

lemma wrap_rel:
  assumes "\<And>c s. rel e s (snd (call c s))"
  shows "rel e s (snd (wrap call ro sh target s))"
  unfolding wrap_def shallowReactive_def readonly_def shallowReadonly_def
  by (auto intro!: reactive_rel createReactiveObject_rel assms)

lemma readonly_rel:
  assumes "\<And>c s. rel e s (snd (call c s))"
  shows "rel e s (snd (readonly call target s))"
  unfolding readonly_def by (intro createReactiveObject_rel assms)

lemma toRaw_rel:
  assumes "\<And>c s. rel e s (snd (call c s))"
  shows "rel e s (snd (toRaw call v s))"
  unfolding toRaw_def by (auto intro!: rel_bnd get_prop_rel assms rel_ret)

lemma isRef_rel:
  assumes "\<And>c s. rel e s (snd (call c s))"
  shows "rel e s (snd (isRef call v s))"
  unfolding isRef_def by (auto intro!: rel_bnd get_prop_rel assms rel_ret)

lemma ref_get_rel: "rel e s (snd (ref_get a s))"
  unfolding ref_get_def by (auto split: option.splits obj.splits intro!: rel_track rel_refl)

lemma ref_set_rel:
  assumes "\<And>c s. rel e s (snd (call c s))"
  shows "rel e s (snd (ref_set call a v s))"
  unfolding ref_set_def
  by (auto split: option.splits obj.splits intro!: rel_bnd rel_modify rel_heap assms rel_ret rel_refl)

lemma createGetter_rel:
  assumes "\<And>c s. rel e s (snd (call c s))"
  shows "rel e s (snd (createGetter ro sh call target k receiver s))"
  unfolding createGetter_def Let_def
  by (auto intro!: rel_bnd rel_modify rel_track get_prop_rel isRef_rel readonly_rel reactive_rel
      assms rel_ret rel_refl)

lemma createSetter_rel:
  assumes "\<And>c s. rel e s (snd (call c s))"
  shows "rel e s (snd (createSetter sh call target k v receiver s))"
  unfolding createSetter_def
  by (auto intro!: rel_bnd get_prop_rel set_prop_rel isRef_rel assms rel_ret rel_refl)

lemma computed_get_rel:
  assumes "\<And>c s. rel e s (snd (call c s))"
  shows "rel e s (snd (computed_get call this s))"
  unfolding computed_get_def
  by (auto split: val.splits option.splits obj.splits
      intro!: rel_bnd rel_modify rel_track get_prop_rel call_fn_rel assms rel_ret rel_refl
        rel_unmodelled rel_heap)

lemma computed_set_rel:
  assumes "\<And>c s. rel e s (snd (call c s))"
  shows "rel e s (snd (computed_set call c v s))"
  unfolding computed_set_def
  by (auto split: option.splits obj.splits intro!: rel_bnd exec_rel assms rel_ret rel_refl)

lemma collection_get_rel:
  assumes "\<And>c s. rel e s (snd (call c s))"
  shows "rel e s (snd (collection_get ro call target k receiver s))"
  unfolding collection_get_def by (auto intro!: assms rel_ret rel_unmodelled)

lemma object_get_rel:
  assumes "\<And>c s. rel e s (snd (call c s))"
  shows "rel e s (snd (object_get call a k receiver s))"
  unfolding object_get_def
  by (auto split: option.splits obj.splits val.splits
      intro!: collection_get_rel createGetter_rel ref_get_rel computed_get_rel assms rel_refl)

lemma define_on_receiver_rel: "rel e s (snd (define_on_receiver receiver k v s))"
  unfolding define_on_receiver_def Let_def
  by (auto split: option.splits obj.splits val.splits outcome.splits intro!: rel_heap rel_refl)

lemma object_set_rel:
  assumes "\<And>c s. rel e s (snd (call c s))"
  shows "rel e s (snd (object_set call a k v receiver s))"
  unfolding object_set_def readonly_set_def
  by (auto split: option.splits obj.splits val.splits
      intro!: define_on_receiver_rel createSetter_rel ref_set_rel computed_set_rel assms rel_refl rel_ret)

lemma reactiveEffect_active:
  assumes "active (effects s e)" and "e \<notin> set (effectStack s)"
  shows "reactiveEffect call e s
    = (fst (exec call (raw (effects s e)) (enter e s)), leave (snd (exec call (raw (effects s e)) (enter e s))))"
  using assms
  by (simp add: reactiveEffect_def try_finally_def enter_def leave_def Let_def enableTracking_def
      split: prod.splits)

lemma enter_fields [simp]:
  "effectStack (enter e s) = effectStack s @ [e]"
  "activeEffect (enter e s) = Some e"
  "history (enter e s) = history s @ [FnCall e]"
  "heap (enter e s) = heap s"
  "shouldTrack (enter e s) = True"
  "trackStack (enter e s) = trackStack s @ [shouldTrack s]"
  "deps (effects (enter e s) x) = (if x = e then [] else deps (effects s x))"
  "active (effects (enter e s) x) = active (effects s x)"
  "raw (effects (enter e s) x) = raw (effects s x)"
  "options (effects (enter e s) x) = options (effects s x)"
  "allowRecurse (effects (enter e s) x) = allowRecurse (effects s x)"
  by (simp_all add: enter_def Let_def enableTracking_def deps_cleanup)

lemma dep_of_enter: "dep_of (enter e s) t k = dep_of (cleanup e s) t k"
  by (simp add: enter_def Let_def enableTracking_def dep_of_def)

lemma leave_fields [simp]:
  "effectStack (leave s) = butlast (effectStack s)"
  "activeEffect (leave s) = (if butlast (effectStack s) = [] then None else Some (last (butlast (effectStack s))))"
  "history (leave s) = history s"
  "heap (leave s) = heap s"
  "effects (leave s) = effects s"
  "targetMap (leave s) = targetMap s"
  by (simp_all add: leave_def Let_def resetTracking_def)

lemma edge_sym_enter: "edge_sym s \<Longrightarrow> edge_sym (enter e s)"
  using edge_sym_cleanup[of s e] by (simp add: edge_sym_def dep_of_enter deps_cleanup)

lemma reactiveEffect_rel:
  assumes C: "\<And>c s. rel e s (snd (call c s))"
  shows "rel e s (snd (reactiveEffect call x s))"
proof (cases "active (effects s x)")
  case False
  have "rel e s (s\<lparr>history := history s @ [FnCall x]\<rparr>)"
    by (rule rel_history) simp
  then have "rel e s (snd (exec call (raw (effects s x)) (s\<lparr>history := history s @ [FnCall x]\<rparr>)))"
    by (rule rel_trans[OF _ exec_rel[OF C]])
  then show ?thesis
    using False by (simp add: reactiveEffect_def rel_refl split: option.splits)
next
  case True
  show ?thesis
  proof (cases "x \<in> set (effectStack s)")
    case True
    with \<open>active (effects s x)\<close> show ?thesis
      by (simp add: reactiveEffect_def rel_refl)
  next
    case False
    define s4 where "s4 = snd (exec call (raw (effects s x)) (enter x s))"
    have r: "rel e (enter x s) s4"
      unfolding s4_def by (rule exec_rel[OF C])
    then obtain evs where 4: "effectStack s4 = effectStack s @ [x]"
      "history s4 = history s @ FnCall x # evs"
      "\<forall>y. StopCall y \<notin> set evs \<longrightarrow> active (effects s4 y) = active (effects s y)"
      "edge_sym (enter x s) \<longrightarrow> edge_sym s4
         \<and> (e \<in> set (effectStack (enter x s)) \<and> StopCall e \<notin> set evs \<longrightarrow>
              set (deps (effects s4 e)) = set (deps (effects (enter x s) e)) \<union> tracked e evs)"
      unfolding rel_def by auto
    have res: "snd (reactiveEffect call x s) = leave s4"
      using reactiveEffect_active[OF True False, of call] by (simp add: s4_def)
    have es: "edge_sym (leave s4)" if "edge_sym s"
    proof -
      have "edge_sym s4" using 4(4) edge_sym_enter[OF that, of x] by simp
      then show ?thesis by (simp add: edge_sym_def dep_of_def)
    qed
    have d: "edge_sym s \<Longrightarrow> e \<in> set (effectStack s) \<Longrightarrow> StopCall e \<notin> set (FnCall x # evs) \<Longrightarrow>
        set (deps (effects (leave s4) e)) = set (deps (effects s e)) \<union> tracked e (FnCall x # evs)"
      using 4(4) edge_sym_enter[of s x] False by (auto simp: tracked_def)
    show ?thesis
      unfolding res rel_def
      using 4(1,2,3) es d
      by (intro conjI exI[of _ "FnCall x # evs"]) (auto simp: wf_active_def)
  qed
qed

lemma rel_deactivate:
  assumes "rel e s s2" and "StopCall x \<in> set (drop (length (history s)) (history s2))"
  shows "rel e s (s2\<lparr>effects := (effects s2)(x := (effects s2 x)\<lparr>active := False\<rparr>)\<rparr>)"
proof -
  let ?s3 = "s2\<lparr>effects := (effects s2)(x := (effects s2 x)\<lparr>active := False\<rparr>)\<rparr>"
  from assms(1) obtain evs where 1: "effectStack s2 = effectStack s"
    "wf_active s \<longrightarrow> activeEffect s2 = activeEffect s"
    "history s2 = history s @ evs"
    "\<forall>y. StopCall y \<notin> set evs \<longrightarrow> active (effects s2 y) = active (effects s y)"
    "edge_sym s \<longrightarrow> edge_sym s2
       \<and> (e \<in> set (effectStack s) \<and> StopCall e \<notin> set evs \<longrightarrow>
            set (deps (effects s2 e)) = set (deps (effects s e)) \<union> tracked e evs)"
    unfolding rel_def by blast
  have x: "StopCall x \<in> set evs" using assms(2) 1(3) by simp
  have es: "edge_sym s2 \<Longrightarrow> edge_sym ?s3"
    by (simp add: edge_sym_def dep_of_def)
  have a: "\<forall>y. StopCall y \<notin> set evs \<longrightarrow> active (effects ?s3 y) = active (effects s y)"
    using 1(4) x by auto
  have d: "edge_sym s \<longrightarrow> edge_sym ?s3
       \<and> (e \<in> set (effectStack s) \<and> StopCall e \<notin> set evs \<longrightarrow>
            set (deps (effects ?s3 e)) = set (deps (effects s e)) \<union> tracked e evs)"
    using 1(5) es by auto
  show ?thesis
    unfolding rel_def using 1(1,2,3) a d by (intro conjI exI[of _ evs]) auto
qed

lemma stop_rel:
  assumes C: "\<And>c s. rel e s (snd (call c s))"
  shows "rel e s (snd (stop call x s))"
proof -
  let ?s = "s\<lparr>history := history s @ [StopCall x]\<rparr>"
  let ?m = "case onStop (options (effects ?s x)) of Some p \<Rightarrow> exec call p | None \<Rightarrow> ret Undefined"
  have 0: "rel e s ?s" by (rule rel_history) simp
  have 1: "rel e s (cleanup x ?s)" by (rule rel_cleanup) simp_all
  have 2: "rel e (cleanup x ?s) (snd (?m (cleanup x ?s)))"
    by (auto split: option.splits intro!: exec_rel C rel_ret)
  have 3: "rel e s (snd (?m (cleanup x ?s)))"
    by (rule rel_trans[OF 1 2])
  obtain evs where h: "history (snd (?m (cleanup x ?s))) = history (cleanup x ?s) @ evs"
    using 2 unfolding rel_def by blast
  have 4: "StopCall x \<in> set (drop (length (history s)) (history (snd (?m (cleanup x ?s)))))"
    using h by simp
  show ?thesis
  proof (cases "active (effects s x)")
    case False
    then show ?thesis using 0 by (simp add: stop_def Let_def)
  next
    case True
    obtain r s2 where m: "?m (cleanup x ?s) = (r, s2)" by (cases "?m (cleanup x ?s)")
    show ?thesis
    proof (cases r)
      case (Ok u)
      then show ?thesis
        using True m rel_deactivate[OF 3 4]
        by (simp add: stop_def Let_def bnd_def modify_def ret_def)
    qed (use True m 3 in \<open>simp_all add: stop_def Let_def bnd_def\<close>)
  qed
qed

lemma step_rel:
  assumes C: "\<And>c s. rel e s (snd (call c s))"
  shows "rel e s (snd (step call c s))"
  unfolding step_def
  by (cases c)
     (auto intro!: reactiveEffect_rel object_get_rel object_set_rel toRaw_rel wrap_rel trigger_rel stop_rel C)

lemma run_rel: "rel e s (snd (run n c s))"
proof (induction n arbitrary: c s)
  case 0
  show ?case by (simp add: rel_refl)
next
  case (Suc n)
  show ?case by (simp add: step_rel Suc)
qed

declare run.simps(2) [simp del]

lemma run_Suc:
  "run (Suc n) (InvokeC e) = reactiveEffect (run n) e"
  "run (Suc n) (GetC a k r) = object_get (run n) a k r"
  "run (Suc n) (SetC a k v r) = object_set (run n) a k v r"
  "run (Suc n) (ToRawC v) = toRaw (run n) v"
  "run (Suc n) (WrapC ro sh v) = wrap (run n) ro sh v"
  "run (Suc n) (TriggerC target ty ko v) = trigger (run n) target ty ko v"
  "run (Suc n) (StopC e) = stop (run n) e"
  by (simp_all add: step_def run.simps(2))

section \<open>The tracking switches\<close>

lemma resetTracking_pauseTracking: "resetTracking (pauseTracking s) = s"
  by (simp add: resetTracking_def pauseTracking_def)

lemma resetTracking_enableTracking: "resetTracking (enableTracking s) = s"
  by (simp add: resetTracking_def enableTracking_def)

lemma balanced_pairs_id:
  "fold (\<lambda>b s. resetTracking ((if b then enableTracking else pauseTracking) s)) bs s = s"
  by (induction bs) (simp_all add: resetTracking_pauseTracking resetTracking_enableTracking)

text \<open>
  C10. \<open>resetTracking\<close> on an empty \<open>trackStack\<close> sets \<open>shouldTrack\<close> to true and leaves
  the stack empty; so after any number of matched pairs (\<open>pauseTracking\<close> or
  \<open>enableTracking\<close>, each followed by its \<open>resetTracking\<close>) one more \<open>resetTracking\<close>
  leaves tracking enabled, whatever the flag was before.
\<close>

theorem resetTracking_empty_stack:
  assumes "trackStack s = []"
  shows "shouldTrack (resetTracking s) = True
    \<and> trackStack (resetTracking s) = []
    \<and> shouldTrack (resetTracking
          (fold (\<lambda>b s. resetTracking ((if b then enableTracking else pauseTracking) s)) bs s)) = True"
  using assms by (simp add: balanced_pairs_id) (simp add: resetTracking_def)

theorem resetTracking_empty_stack_witness:
  "trackStack (init\<lparr>shouldTrack := False\<rparr>) = []
   \<and> shouldTrack (resetTracking (init\<lparr>shouldTrack := False\<rparr>)) = True
   \<and> shouldTrack (resetTracking
        (fold (\<lambda>b s. resetTracking ((if b then enableTracking else pauseTracking) s)) [False, True]
           (init\<lparr>shouldTrack := False\<rparr>))) = True"
proof -
  have h: "trackStack (init\<lparr>shouldTrack := False\<rparr>) = []"
    by (simp add: init_def)
  show ?thesis
    using h resetTracking_empty_stack[OF h, of "[False, True]"] by simp
qed

section \<open>Edge symmetry, cleanup freshness, exception safety\<close>

lemma edge_sym_init: "edge_sym init"
  by (simp add: edge_sym_def dep_of_def init_def)

lemma edge_sym_alloc: "edge_sym s \<Longrightarrow> edge_sym (snd (alloc ob s))"
  by (simp add: edge_sym_def dep_of_def alloc_def)

lemma edge_sym_run: "edge_sym s \<Longrightarrow> edge_sym (snd (run n c s))"
  using run_rel[of 0 s n c] unfolding rel_def by blast

lemma edge_sym_exec_run: "edge_sym s \<Longrightarrow> edge_sym (snd (exec (run n) p s))"
  using exec_rel[of 0 "run n" s p, OF run_rel] unfolding rel_def by blast

lemma edge_sym_createReactiveEffect:
  assumes "edge_sym s" and "deps (effects s (uid s)) = []"
  shows "edge_sym (snd (createReactiveEffect fn opts s))"
  using assms unfolding edge_sym_def createReactiveEffect_def dep_of_def
  by (auto split: option.splits)

lemma edge_sym_effect:
  assumes "edge_sym s" and "deps (effects s (uid s)) = []"
  shows "edge_sym (snd (effect (run n) fn opts s))"
proof -
  obtain x s1 where c: "createReactiveEffect (case fn of Fn p \<Rightarrow> p | IsEffect e \<Rightarrow> raw (effects s e)) opts s = (x, s1)"
    by (cases "createReactiveEffect (case fn of Fn p \<Rightarrow> p | IsEffect e \<Rightarrow> raw (effects s e)) opts s")
  have 1: "edge_sym s1"
    using edge_sym_createReactiveEffect[OF assms, of "case fn of Fn p \<Rightarrow> p | IsEffect e \<Rightarrow> raw (effects s e)" opts] c
    by simp
  have 2: "edge_sym (snd (run n (InvokeC x) s1))"
    by (rule edge_sym_run[OF 1])
  show ?thesis
    using c 1 2
    by (cases "run n (InvokeC x) s1")
       (auto simp: effect_def Let_def bnd_def ret_def split: outcome.splits)
qed

text \<open>
  C5. Edge symmetry: an effect is a member of the \<open>Dep\<close> of a target and a key exactly
  when that \<open>Dep\<close> is in its \<open>deps\<close>. The property is kept by \<open>track\<close>, by \<open>cleanup\<close>, by
  every call of the module (running an effect, \<open>trigger\<close>, \<open>stop\<close>, a read or a write
  through a proxy, a wrapper, \<open>toRaw\<close>) whatever its outcome, and so by every sequence of
  such operations (a user function run as a script).
\<close>

theorem edge_symmetry:
  assumes "edge_sym s"
  shows "edge_sym (track t ty k s)
    \<and> edge_sym (cleanup e s)
    \<and> edge_sym (snd (run n c s))
    \<and> edge_sym (snd (script n p s))"
  using assms
  by (simp add: edge_sym_track edge_sym_cleanup edge_sym_run edge_sym_exec_run script_def)

lemma edge_sym_S1_effect: "edge_sym S1_effect"
proof -
  have 0: "edge_sym S1_reactive"
    unfolding S1_reactive_def script_def
    by (intro edge_sym_exec_run edge_sym_alloc edge_sym_init)
  have 1: "deps (effects S1_reactive (uid S1_reactive)) = []"
    by code_simp
  show ?thesis
    unfolding S1_effect_def by (rule edge_sym_effect[OF 0 1])
qed

theorem edge_symmetry_witness:
  "edge_sym S1_effect
   \<and> dep_of S1_effect 0 (Str ''a'') = [0]
   \<and> deps (effects S1_effect 0) = [(0, Str ''a'')]
   \<and> edge_sym (track 0 GET (Str ''b'') S1_effect)
   \<and> edge_sym (cleanup 0 S1_effect)
   \<and> edge_sym (snd (run 10 (StopC 0) S1_effect))
   \<and> edge_sym (snd (script 10 (SetProp (Obj 1) (Str ''a'') (Num 2) (Return Undefined)) S1_effect))"
proof -
  have 1: "dep_of S1_effect 0 (Str ''a'') = [0]" by code_simp
  have 2: "deps (effects S1_effect 0) = [(0, Str ''a'')]" by code_simp
  show ?thesis
    using edge_sym_S1_effect 1 2
      edge_symmetry[OF edge_sym_S1_effect, of 0 GET "Str ''b''" 0 10 "StopC 0"
        "SetProp (Obj 1) (Str ''a'') (Num 2) (Return Undefined)"]
    by simp
qed







section \<open>Reading and writing raw objects and their proxies\<close>

lemma flags_not_integer [simp]:
  "\<not> isIntegerKey SKIP" "\<not> isIntegerKey IS_REACTIVE" "\<not> isIntegerKey IS_READONLY"
  "\<not> isIntegerKey RAW" "\<not> isIntegerKey (Str ''__v_isRef'')" "\<not> isIntegerKey (Str ''value'')"
  "\<not> isIntegerKey (Str ''length'')"
  by code_simp+

lemma no_reserved_simps:
  "no_reserved props \<Longrightarrow> map_of props SKIP = None"
  "no_reserved props \<Longrightarrow> map_of props IS_REACTIVE = None"
  "no_reserved props \<Longrightarrow> map_of props IS_READONLY = None"
  "no_reserved props \<Longrightarrow> map_of props RAW = None"
  "no_reserved props \<Longrightarrow> map_of props (Str ''__v_isRef'') = None"
  by (simp_all add: no_reserved_def)

lemma bnd_simps [simp]:
  "m s = (Ok x, s') \<Longrightarrow> bnd m f s = f x s'"
  "m s = (Thrown v, s') \<Longrightarrow> bnd m f s = (Thrown v, s')"
  "bnd (ret x) f = f x"
  by (auto simp: bnd_def ret_def)

lemma ret_apply [simp]: "ret x s = (Ok x, s)"
  by (simp add: ret_def)

lemma array_get_flag:
  assumes "no_reserved props" and "k \<in> {SKIP, IS_REACTIVE, IS_READONLY, RAW, Str ''__v_isRef''}"
  shows "array_get elems props k = Undefined"
  using assms by (auto simp: array_get_def no_reserved_simps arrayInstrumentations_def)

text \<open>Reading a reserved key of a raw object gives \<open>undefined\<close> and changes nothing.\<close>

lemma raw_get_flag:
  assumes "eligible s a" and "k \<in> {SKIP, IS_REACTIVE, IS_READONLY, RAW}"
  shows "run (Suc n) (GetC a k r) s = (Ok Undefined, s)"
proof (cases "heap s a")
  case None
  with assms(1) show ?thesis by (simp add: eligible_def)
next
  case (Some ob)
  show ?thesis
  proof (cases ob)
    case (Plain props proto ext)
    then have "map_of props k = None" "\<not> isObject proto"
      using Some assms by (auto simp: eligible_def no_reserved_simps)
    then show ?thesis
      using Some Plain assms(2) by (cases proto) (auto simp: run_Suc object_get_def isObject_def)
  next
    case (Array elems props ext)
    then have "array_get elems props k = Undefined"
      using Some assms by (intro array_get_flag) (auto simp: eligible_def)
    then show ?thesis
      using Some Array assms(2) by (auto simp: run_Suc object_get_def)
  next
    case (Collection c skip)
    with Some assms show ?thesis
      by (auto simp: run_Suc object_get_def eligible_def reserved_flags_def)
  qed (use Some assms in \<open>simp_all add: eligible_def\<close>)
qed

lemma toRaw_Undefined [simp]: "toRaw call Undefined s = (Ok Undefined, s)"
  by (simp add: toRaw_def truthy_def)

lemma toRaw_primitive:
  assumes "\<not> isObject v"
  shows "run (Suc (Suc n)) (ToRawC v) s = (Ok v, s)"
  using assms
  by (cases v) (simp_all add: run_Suc toRaw_def truthy_def isObject_def get_prop_def throw_def)

lemma toRaw_raw:
  assumes "eligible s a"
  shows "run (Suc (Suc n)) (ToRawC (Obj a)) s = (Ok (Obj a), s)"
proof -
  have 1: "run (Suc n) (GetC a RAW (Obj a)) s = (Ok Undefined, s)"
    by (rule raw_get_flag[OF assms]) simp
  show ?thesis
    unfolding run_Suc(4)[of "Suc n"] toRaw_def
    using 1 by (simp add: truthy_def get_prop_def run_Suc(4))
qed

text \<open>The reserved keys of a proxy.\<close>

lemma proxy_get_IS_REACTIVE:
  assumes "heap s p = Some (Proxy a ro sh coll)"
  shows "run (Suc n) (GetC p IS_REACTIVE r) s = (Ok (Bool (\<not> ro)), s)"
  using assms by (simp add: run_Suc object_get_def collection_get_def createGetter_def)

lemma proxy_get_IS_READONLY:
  assumes "heap s p = Some (Proxy a ro sh coll)"
  shows "run (Suc n) (GetC p IS_READONLY r) s = (Ok (Bool ro), s)"
  using assms by (simp add: run_Suc object_get_def collection_get_def createGetter_def)

lemma proxy_get_RAW:
  assumes "heap s p = Some (Proxy a ro sh coll)" and "proxyMap ro sh s a = Some p"
  shows "run (Suc n) (GetC p RAW (Obj p)) s = (Ok (Obj a), s)"
  using assms by (simp add: run_Suc object_get_def collection_get_def createGetter_def)

lemma toRaw_proxy:
  assumes "heap s p = Some (Proxy a ro sh coll)" and "proxyMap ro sh s a = Some p" and "eligible s a"
  shows "run (Suc (Suc (Suc n))) (ToRawC (Obj p)) s = (Ok (Obj a), s)"
  unfolding run_Suc(4)[of "Suc (Suc n)"] toRaw_def
  using proxy_get_RAW[OF assms(1,2), of "Suc n"] toRaw_raw[OF assms(3), of n]
  by (simp add: truthy_def get_prop_def)

lemma underlying_nonproxy:
  assumes "\<And>t ro sh c. h a \<noteq> Some (Proxy t ro sh c)"
  shows "underlying h a = a"
  using assms by (subst underlying.simps) (auto split: option.splits obj.splits)

lemma eligible_underlying: "eligible s a \<Longrightarrow> underlying (heap s) a = a"
  by (rule underlying_nonproxy) (auto simp: eligible_def split: option.splits obj.splits)

lemma eligible_getTargetType:
  assumes "eligible s a"
  shows "getTargetType (run (Suc n)) a s
    = (Ok (if (case heap s a of Some (Collection _ _) \<Rightarrow> True | _ \<Rightarrow> False) then COLLECTION else COMMON), s)"
proof -
  have 1: "run (Suc n) (GetC a SKIP (Obj a)) s = (Ok Undefined, s)"
    by (rule raw_get_flag[OF assms]) simp
  show ?thesis
    using 1 assms
    by (auto simp: getTargetType_def get_prop_def truthy_def isExtensible_def toRawType_def
        eligible_underlying eligible_def targetTypeMap_def
        split: option.splits obj.splits collection.splits)
qed

lemma createReactiveObject_raw:
  assumes "eligible s a"
  shows "createReactiveObject (run (Suc n)) (Obj a) ro sh s
    = (case proxyMap ro sh s a of
         Some p \<Rightarrow> (Ok (Obj p), s)
       | None \<Rightarrow> (Ok (Obj (nextAddr s)), new_proxy ro sh a s))"
proof -
  have 1: "run (Suc n) (GetC a RAW (Obj a)) s = (Ok Undefined, s)"
    by (rule raw_get_flag[OF assms]) simp
  show ?thesis
    using 1 eligible_getTargetType[OF assms, of n]
    by (auto simp: createReactiveObject_def get_prop_def truthy_def new_proxy_def
        split: option.splits)
qed

lemma wrap_raw:
  assumes "eligible s a"
  shows "run (Suc (Suc n)) (WrapC ro sh (Obj a)) s
    = (case proxyMap ro sh s a of
         Some p \<Rightarrow> (Ok (Obj p), s)
       | None \<Rightarrow> (Ok (Obj (nextAddr s)), new_proxy ro sh a s))"
proof -
  have 1: "run (Suc n) (GetC a IS_READONLY (Obj a)) s = (Ok Undefined, s)"
    by (rule raw_get_flag[OF assms]) simp
  show ?thesis
    using 1 createReactiveObject_raw[OF assms, of n]
    by (cases ro; cases sh)
       (simp_all add: run_Suc(5)[of "Suc n"] wrap_def reactive_def shallowReactive_def readonly_def
        shallowReadonly_def get_prop_def truthy_def split: option.splits)
qed

lemma wrap_proxy_same_flavor:
  assumes "heap s p = Some (Proxy a ro sh coll)" and "proxyMap ro sh s a = Some p"
  shows "run (Suc (Suc n)) (WrapC ro sh (Obj p)) s = (Ok (Obj p), s)"
  using proxy_get_RAW[OF assms, of n] proxy_get_IS_READONLY[OF assms(1), of n "Obj p"]
    proxy_get_IS_REACTIVE[OF assms(1), of n "Obj p"]
  by (cases ro; cases sh)
     (simp_all add: run_Suc(5)[of "Suc n"] wrap_def reactive_def shallowReactive_def readonly_def
      shallowReadonly_def createReactiveObject_def get_prop_def truthy_def)

lemma new_proxy_fields:
  "proxyMap ro sh (new_proxy ro sh a s) a = Some (nextAddr s)"
  "heap (new_proxy ro sh a s) (nextAddr s)
     = Some (Proxy a ro sh (case heap s a of Some (Collection _ _) \<Rightarrow> True | _ \<Rightarrow> False))"
  "a \<noteq> nextAddr s \<Longrightarrow> heap (new_proxy ro sh a s) a = heap s a"
  "nextAddr (new_proxy ro sh a s) = Suc (nextAddr s)"
  by (auto simp: new_proxy_def proxyMap_set_def proxyMap_def)

lemma eligible_new_proxy: "eligible s a \<Longrightarrow> eligible (new_proxy ro sh a s) a"
  by (simp add: eligible_def new_proxy_fields)

text \<open>
  C9. Wrap idempotence and raw round trip. For a raw target \<open>t\<close> (an extensible ordinary
  object or array without own reserved keys, or a collection not marked skip) and a
  flavor \<open>(isReadonly, shallow)\<close>, in a state whose proxy maps hold proxies of their
  flavor: wrapping \<open>t\<close> returns a proxy \<open>p\<close> of \<open>t\<close>; wrapping \<open>p\<close> again in the same flavor
  returns \<open>p\<close> and changes nothing; \<open>toRaw p\<close> is \<open>t\<close>; \<open>toRaw t\<close> is \<open>t\<close>; and \<open>toRaw\<close> of a
  value that is not an object is that value.
\<close>

theorem wrap_idempotent_toRaw_roundtrip:
  assumes "eligible s t" and "proxies_ok s"
  shows "\<exists>p s1. run (Suc (Suc n)) (WrapC ro sh (Obj t)) s = (Ok (Obj p), s1)
      \<and> (\<exists>coll. heap s1 p = Some (Proxy t ro sh coll))
      \<and> run (Suc (Suc n)) (WrapC ro sh (Obj p)) s1 = (Ok (Obj p), s1)
      \<and> run (Suc (Suc (Suc n))) (ToRawC (Obj p)) s1 = (Ok (Obj t), s1)
      \<and> run (Suc (Suc n)) (ToRawC (Obj t)) s = (Ok (Obj t), s)
      \<and> (isObject v \<or> run (Suc (Suc n)) (ToRawC v) s = (Ok v, s))"
proof -
  have raw: "run (Suc (Suc n)) (ToRawC (Obj t)) s = (Ok (Obj t), s)"
    by (rule toRaw_raw[OF assms(1)])
  have prim: "isObject v \<or> run (Suc (Suc n)) (ToRawC v) s = (Ok v, s)"
    using toRaw_primitive[of v n s] by blast
  show ?thesis
  proof (cases "proxyMap ro sh s t")
    case (Some p)
    obtain coll where h: "heap s p = Some (Proxy t ro sh coll)"
      using assms(2) Some unfolding proxies_ok_def by blast
    have 1: "run (Suc (Suc n)) (WrapC ro sh (Obj t)) s = (Ok (Obj p), s)"
      using wrap_raw[OF assms(1), of n ro sh] Some by simp
    show ?thesis
      using 1 h wrap_proxy_same_flavor[OF h Some, of n] toRaw_proxy[OF h Some assms(1), of n] raw prim
      by blast
  next
    case None
    let ?p = "nextAddr s" and ?s1 = "new_proxy ro sh t s"
    have ne: "t \<noteq> nextAddr s" using assms(1) by (auto simp: eligible_def)
    have 1: "run (Suc (Suc n)) (WrapC ro sh (Obj t)) s = (Ok (Obj ?p), ?s1)"
      using wrap_raw[OF assms(1), of n ro sh] None by simp
    have h: "heap ?s1 ?p = Some (Proxy t ro sh (case heap s t of Some (Collection _ _) \<Rightarrow> True | _ \<Rightarrow> False))"
      by (rule new_proxy_fields)
    have m: "proxyMap ro sh ?s1 t = Some ?p"
      by (rule new_proxy_fields)
    show ?thesis
      using 1 h wrap_proxy_same_flavor[OF h m, of n]
        toRaw_proxy[OF h m eligible_new_proxy[OF assms(1)], of n] raw prim
      by blast
  qed
qed






lemma own_data_not_array_or_ref:
  assumes "own_data (heap s a) k = Some old" and "eligible s a"
  shows "isArray s a \<or> (\<exists>props proto ext. heap s a = Some (Plain props proto ext))"
  using assms eligible_underlying[OF assms(2)]
  by (auto simp: own_data_def isArray_def split: option.splits obj.splits)











lemma writable_old:
  assumes "own_data ob k = Some old"
  shows "writable ob k old"
  using assms by (auto simp: writable_def own_data_def split: option.splits obj.splits if_splits)





theorem wrap_idempotent_toRaw_roundtrip_witness:
  "eligible S1_alloc 0 \<and> proxies_ok S1_alloc
   \<and> (\<exists>p s1. run (Suc (Suc 0)) (WrapC False False (Obj 0)) S1_alloc = (Ok (Obj p), s1)
      \<and> (\<exists>coll. heap s1 p = Some (Proxy 0 False False coll))
      \<and> run (Suc (Suc 0)) (WrapC False False (Obj p)) s1 = (Ok (Obj p), s1)
      \<and> run (Suc (Suc (Suc 0))) (ToRawC (Obj p)) s1 = (Ok (Obj 0), s1)
      \<and> run (Suc (Suc 0)) (ToRawC (Obj 0)) S1_alloc = (Ok (Obj 0), S1_alloc)
      \<and> run (Suc (Suc 0)) (ToRawC (Num 7)) S1_alloc = (Ok (Num 7), S1_alloc))
   \<and> fst (run (Suc (Suc 0)) (WrapC False False (Obj 0)) S1_alloc) = Ok (Obj 1)"
proof -
  have 1: "eligible S1_alloc 0" by code_simp
  have 2: "proxies_ok S1_alloc"
    by (simp add: proxies_ok_def proxyMap_def S1_alloc_def alloc_def init_def)
  have 3: "fst (run (Suc (Suc 0)) (WrapC False False (Obj 0)) S1_alloc) = Ok (Obj 1)" by code_simp
  have 4: "\<not> isObject (Num 7)" by (simp add: isObject_def)
  show ?thesis
    using 1 2 3 4 wrap_idempotent_toRaw_roundtrip[OF 1 2, of 0 False False "Num 7"] by simp
qed




section \<open>The trigger of an array's length\<close>

lemma S2_scenario:
  "history S2_shrink = history S2_effects @
     [TriggerCall 0 SET (Some (Str ''length'')),
      FnCall 0, TrackCall (Some 0) True 0 GET (Str ''3''),
      FnCall 1, TrackCall (Some 1) True 0 GET (Str ''length'')]"
  by code_simp



lemma set_add_None [simp]: "add s None effs = effs"
  by (simp add: add_def)










section \<open>Read-only proxies over reactive proxies\<close>











end
